theory Spec2Isabelle
  imports Complex_Main "HOL-Library.AList"
begin

unbundle bit_operations_syntax

section \<open>The font merger (Lib/fontTools/merge.py)\<close>

text \<open>
  A shallow embedding of the table merging engine of \<^verbatim>\<open>merge.py\<close>: the glyph-order
  unifier \<^verbatim>\<open>Merger._mergeGlyphOrders\<close>, the scalar combinators, the generic field merger
  \<^verbatim>\<open>Merger._mergeKeys\<close> and the \<^verbatim>\<open>merge\<close> methods attached to the table classes.

  Conventions.
  \<^item> A Python exception is a value of \<open>error\<close>; a function that can raise returns
    \<open>error + 'a\<close> with \<open>Inl\<close> for the exception.
  \<^item> A \<^verbatim>\<open>merge(self, m)\<close> method reads \<^verbatim>\<open>m.tables\<close> and writes \<^verbatim>\<open>self\<close>; its model takes
    \<open>self\<close> and \<open>m.tables\<close> and returns the method's result together with \<open>self\<close> and
    \<open>m.tables\<close> as they are when the method returns. A second model of every method,
    with the suffix \<open>_heap\<close>, runs it on a store of table objects, where \<^verbatim>\<open>self\<close> and
    the source tables are addresses.
  \<^item> A Python dict that the code only updates and reads is a map; one that the code
    iterates (\<^verbatim>\<open>vars(table)\<close>, \<^verbatim>\<open>table.glyphs\<close>, a \<^verbatim>\<open>logic\<close> dict) is an association
    list, read with \<open>map_of\<close>.
  \<^item> Names that start with an underscore in the source lose it
    (\<^verbatim>\<open>_mergeKeys\<close> is \<open>mergeKeys\<close>); names that clash with a HOL constant get the
    suffix \<open>_py\<close>; the function \<open>f\<close> as an entry of a \<^verbatim>\<open>logic\<close> dict is the
    constructor \<open>C_f\<close>.
\<close>

datatype error =
  AssertionError | StopIteration | KeyError | AttributeError | ValueError | TypeError

subsection \<open>Glyph-order unifier\<close>

text \<open>
  \<^verbatim>\<open>repr(n)\<close> of a non-negative Python integer: its decimal digits, most significant
  first, with no sign and no leading zero.
\<close>

definition digit_char :: "nat \<Rightarrow> char" where
  "digit_char d = char_of (48 + d)"

fun repr :: "nat \<Rightarrow> string" where
  "repr n = (if n < 10 then [digit_char n] else repr (n div 10) @ [digit_char (n mod 10)])"

declare repr.simps [simp del]

text \<open>
  The body of the inner loop of \<^verbatim>\<open>_mergeGlyphOrders\<close>,
  \<^verbatim>\<open>for i,glyphName in enumerate(glyphOrder)\<close>: position \<open>i\<close> of \<open>glyphOrder\<close> is
  overwritten with the renamed glyph, which is also appended to \<open>mega\<close>. The state is
  the pair of the font's glyph order and \<open>mega\<close>.
\<close>

function rename_loop :: "nat \<Rightarrow> nat \<Rightarrow> string list \<Rightarrow> string list \<Rightarrow> string list \<times> string list" where
  "rename_loop n i glyphOrder mega =
     (if i < length glyphOrder then
        (let glyphName = glyphOrder ! i @ ''#'' @ repr n
         in rename_loop n (Suc i) (glyphOrder[i := glyphName]) (mega @ [glyphName]))
      else (glyphOrder, mega))"
  by pat_completeness auto
termination
  by (relation "measure (\<lambda>(n, i, glyphOrder, mega). length glyphOrder - i)") auto

declare rename_loop.simps [simp del]

text \<open>
  The outer loop, \<^verbatim>\<open>for n,glyphOrder in enumerate(glyphOrders)\<close>. The lists of
  \<open>glyphOrders\<close> are distinct objects (one per loaded font), so the in-place update of
  the \<open>n\<close>-th list is the update of position \<open>n\<close> of \<open>glyphOrders\<close>.
\<close>

function fonts_loop :: "nat \<Rightarrow> string list list \<Rightarrow> string list \<Rightarrow> string list list \<times> string list" where
  "fonts_loop n glyphOrders mega =
     (if n < length glyphOrders then
        (case rename_loop n 0 (glyphOrders ! n) mega of
           (glyphOrder, mega') \<Rightarrow> fonts_loop (Suc n) (glyphOrders[n := glyphOrder]) mega')
      else (glyphOrders, mega))"
  by pat_completeness auto
termination
  by (relation "measure (\<lambda>(n, glyphOrders, mega). length glyphOrders - n)") auto

declare fonts_loop.simps [simp del]

text \<open>
  \<^verbatim>\<open>_mergeGlyphOrders(glyphOrders)\<close>: returns the passed-in glyph orders as the method
  leaves them, and the glyph order of the merged font.
\<close>

definition mergeGlyphOrders :: "string list list \<Rightarrow> string list list \<times> string list" where
  "mergeGlyphOrders glyphOrders = fonts_loop 0 glyphOrders []"

text \<open>
  The unifier in the words of the specification: every glyph identifier of font \<open>n\<close>
  gets the suffix derived from \<open>n\<close>, and the global order is the concatenation of the
  renamed per-font sequences in font order.
\<close>

definition renamed :: "nat \<Rightarrow> string list \<Rightarrow> string list" where
  "renamed n glyphOrder = map (\<lambda>glyphName. glyphName @ ''#'' @ repr n) glyphOrder"

definition renamed_fonts :: "string list list \<Rightarrow> string list list" where
  "renamed_fonts glyphOrders = map (\<lambda>(n, glyphOrder). renamed n glyphOrder) (enumerate 0 glyphOrders)"

text \<open>
  The glyphs of all fonts, each paired with the index of its font, in the order of the
  merged glyph order: the list whose image under the renaming is \<open>mega\<close>.
\<close>

definition tagged :: "nat \<Rightarrow> string list list \<Rightarrow> (nat \<times> string) list" where
  "tagged n gos = concat (map (\<lambda>(k, g). map (Pair k) g) (enumerate n gos))"

subsection \<open>Field values and tables\<close>

text \<open>
  The value of a table attribute. Integers are Python's unbounded integers; a
  fixed-point field that fontTools holds as a float (\<^verbatim>\<open>fontRevision\<close>,
  \<^verbatim>\<open>italicAngle\<close>) stands here as the integer of its 16.16 encoding, which has the same
  order and equality. \<open>ListV\<close> is a list of names (\<^verbatim>\<open>extraNames\<close>), \<open>DictV\<close> a dict
  from names to names (\<^verbatim>\<open>mapping\<close>); equality of dicts is equality of maps, as Python's
  \<^verbatim>\<open>==\<close> is.
\<close>

datatype val = IntV int | StrV string | ListV "string list" | DictV "string \<Rightarrow> string option"

text \<open>
  A table handled by the generic field merger is its instance dict \<^verbatim>\<open>vars(table)\<close>:
  attribute names with their values. \<^verbatim>\<open>clazz(tag)\<close> creates a table whose one attribute
  is \<^verbatim>\<open>tableTag\<close>.
\<close>

type_synonym table = "(string \<times> val) list"

definition new_table :: "string \<Rightarrow> table" where
  "new_table tag = [(''tableTag'', StrV tag)]"

definition hasattr :: "table \<Rightarrow> string \<Rightarrow> bool" where
  "hasattr table key = (map_of table key \<noteq> None)"

definition getattr :: "table \<Rightarrow> string \<Rightarrow> error + val" where
  "getattr table key = (case map_of table key of None \<Rightarrow> Inl AttributeError | Some v \<Rightarrow> Inr v)"

definition setattr :: "table \<Rightarrow> string \<Rightarrow> val \<Rightarrow> table" where
  "setattr table key v = AList.update key v table"

subsection \<open>General utility functions for merging values from different fonts\<close>

text \<open>
  \<^verbatim>\<open>equal\<close>: \<^verbatim>\<open>next(t)\<close> on the empty list raises StopIteration; the \<^verbatim>\<open>assert\<close> raises
  AssertionError, the exception the specification calls PolicyViolation.
\<close>

fun equal_py :: "'a list \<Rightarrow> error + 'a" where
  "equal_py [] = Inl StopIteration"
| "equal_py (first # t) =
     (if list_all (\<lambda>item. item = first) t then Inr first else Inl AssertionError)"

fun first :: "'a list \<Rightarrow> error + 'a" where
  "first [] = Inl StopIteration"
| "first (x # lst) = Inr x"

definition recalculate :: "'a list \<Rightarrow> error + 'a" where
  "recalculate lst = first lst"

text \<open>
  \<^verbatim>\<open>current_time\<close> reads the clock: \<open>now\<close> is the value of
  \<^verbatim>\<open>int(time.time() - _h_e_a_d.mac_epoch_diff)\<close> at the call.
\<close>

definition current_time :: "int \<Rightarrow> val list \<Rightarrow> error + val" where
  "current_time now lst = Inr (IntV now)"

text \<open>
  \<^verbatim>\<open>reduce(f, lst)\<close> and the builtins \<^verbatim>\<open>max\<close>, \<^verbatim>\<open>min\<close> and \<^verbatim>\<open>sum\<close>, on integer values;
  an operand that is not an integer raises TypeError. A list of one value is returned
  as it is by \<^verbatim>\<open>reduce\<close>, \<^verbatim>\<open>max\<close> and \<^verbatim>\<open>min\<close>, whatever the value. Of several
  greatest (least) values \<^verbatim>\<open>max\<close> (\<^verbatim>\<open>min\<close>) returns the first.
\<close>

fun reduce :: "(val \<Rightarrow> val \<Rightarrow> error + val) \<Rightarrow> val \<Rightarrow> val list \<Rightarrow> error + val" where
  "reduce f acc [] = Inr acc"
| "reduce f acc (x # lst) = (case f acc x of Inl e \<Rightarrow> Inl e | Inr acc' \<Rightarrow> reduce f acc' lst)"

fun or_py :: "val \<Rightarrow> val \<Rightarrow> error + val" where
  "or_py (IntV a) (IntV b) = Inr (IntV (a OR b))"
| "or_py _ _ = Inl TypeError"

fun add_py :: "val \<Rightarrow> val \<Rightarrow> error + val" where
  "add_py (IntV a) (IntV b) = Inr (IntV (a + b))"
| "add_py _ _ = Inl TypeError"

fun greater_py :: "val \<Rightarrow> val \<Rightarrow> error + val" where
  "greater_py (IntV a) (IntV b) = Inr (IntV (if b > a then b else a))"
| "greater_py _ _ = Inl TypeError"

fun less_py :: "val \<Rightarrow> val \<Rightarrow> error + val" where
  "less_py (IntV a) (IntV b) = Inr (IntV (if b < a then b else a))"
| "less_py _ _ = Inl TypeError"

fun bitwise_or :: "val list \<Rightarrow> error + val" where
  "bitwise_or [] = Inl TypeError"
| "bitwise_or (x # lst) = reduce or_py x lst"

fun max_py :: "val list \<Rightarrow> error + val" where
  "max_py [] = Inl ValueError"
| "max_py (x # lst) = reduce greater_py x lst"

fun min_py :: "val list \<Rightarrow> error + val" where
  "min_py [] = Inl ValueError"
| "min_py (x # lst) = reduce less_py x lst"

definition sum_py :: "val list \<Rightarrow> error + val" where
  "sum_py lst = reduce add_py (IntV 0) lst"

text \<open>\<^verbatim>\<open>ignore\<close>: \<^verbatim>\<open>assert False\<close>.\<close>

definition ignore :: "val list \<Rightarrow> error + val" where
  "ignore lst = Inl AssertionError"

text \<open>
  The functions a \<^verbatim>\<open>logic\<close> dict holds: the utility functions, the builtins, and
  \<^verbatim>\<open>lambda lst: c\<close> for a constant \<open>c\<close>. \<open>call\<close> applies one to a list of values.
\<close>

datatype combinator =
  C_max | C_min | C_sum | C_equal | C_first | C_recalculate | C_current_time
  | C_bitwise_or | C_ignore | C_lambda int

fun call :: "int \<Rightarrow> combinator \<Rightarrow> val list \<Rightarrow> error + val" where
  "call now C_max lst = max_py lst"
| "call now C_min lst = min_py lst"
| "call now C_sum lst = sum_py lst"
| "call now C_equal lst = equal_py lst"
| "call now C_first lst = first lst"
| "call now C_recalculate lst = recalculate lst"
| "call now C_current_time lst = current_time now lst"
| "call now C_bitwise_or lst = bitwise_or lst"
| "call now C_ignore lst = ignore lst"
| "call now (C_lambda c) lst = Inr (IntV c)"

subsection \<open>Generic field merger\<close>

text \<open>
  \<^verbatim>\<open>[getattr(table, key) for table in self.tables]\<close>: AttributeError at the first
  table without the attribute. The attributes of a table are those of its instance
  dict; attributes of its class are not modelled.
\<close>

fun getattrs :: "table list \<Rightarrow> string \<Rightarrow> error + val list" where
  "getattrs [] key = Inr []"
| "getattrs (table # m_tables) key =
     (case getattr table key of
        Inl e \<Rightarrow> Inl e
      | Inr v \<Rightarrow> (case getattrs m_tables key of Inl e \<Rightarrow> Inl e | Inr vs \<Rightarrow> Inr (v # vs)))"

text \<open>
  \<^verbatim>\<open>logic[key]\<close>, and \<^verbatim>\<open>logic['*']\<close> when that raises KeyError; with no \<^verbatim>\<open>'*'\<close> entry
  the second lookup raises KeyError out of \<^verbatim>\<open>_mergeKeys\<close>.
\<close>

definition lookup_logic :: "(string \<times> combinator) list \<Rightarrow> string \<Rightarrow> error + combinator" where
  "lookup_logic logic key =
     (case map_of logic key of
        Some merge_logic \<Rightarrow> Inr merge_logic
      | None \<Rightarrow> (case map_of logic ''*'' of Some merge_logic \<Rightarrow> Inr merge_logic | None \<Rightarrow> Inl KeyError))"

text \<open>
  The loop \<^verbatim>\<open>for key in allKeys\<close> of \<^verbatim>\<open>_mergeKeys\<close>, over the keys in the order given.
\<close>

fun mergeKeys_loop ::
  "int \<Rightarrow> (string \<times> combinator) list \<Rightarrow> table list \<Rightarrow> string list \<Rightarrow> table \<Rightarrow> error + table" where
  "mergeKeys_loop now logic m_tables [] return_table = Inr return_table"
| "mergeKeys_loop now logic m_tables (key # keys) return_table =
     (case lookup_logic logic key of
        Inl e \<Rightarrow> Inl e
      | Inr merge_logic \<Rightarrow>
          if merge_logic = C_ignore then mergeKeys_loop now logic m_tables keys return_table
          else
            (case getattrs m_tables key of
               Inl e \<Rightarrow> Inl e
             | Inr vs \<Rightarrow>
                 (case call now merge_logic vs of
                    Inl e \<Rightarrow> Inl e
                  | Inr key_value \<Rightarrow>
                      mergeKeys_loop now logic m_tables keys (setattr return_table key key_value))))"

text \<open>
  \<^verbatim>\<open>allKeys\<close> is a Python set, whose iteration order is not specified; the model takes
  the keys in the order of their first occurrence. The order decides only which
  exception is raised when several keys raise one.
\<close>

definition allKeys :: "table list \<Rightarrow> string list" where
  "allKeys m_tables = remdups (concat (map (map fst) m_tables))"

definition mergeKeys ::
  "int \<Rightarrow> table \<Rightarrow> (string \<times> combinator) list \<Rightarrow> table list \<Rightarrow> error + table" where
  "mergeKeys now return_table logic m_tables =
     mergeKeys_loop now (AList.update ''tableTag'' C_equal logic) m_tables (allKeys m_tables) return_table"


subsection \<open>Tables merged field by field\<close>

text \<open>The \<^verbatim>\<open>logic\<close> dicts of the five \<^verbatim>\<open>merge\<close> methods, entry by entry.\<close>

definition maxp_logic :: "(string \<times> combinator) list" where
  "maxp_logic =
     [(''*'', C_max),
      (''tableVersion'', C_equal),
      (''numGlyphs'', C_sum),
      (''maxStorage'', C_max),
      (''maxFunctionDefs'', C_sum),
      (''maxInstructionDefs'', C_sum)]"

definition head_logic :: "(string \<times> combinator) list" where
  "head_logic =
     [(''tableVersion'', C_max),
      (''fontRevision'', C_max),
      (''checkSumAdjustment'', C_recalculate),
      (''magicNumber'', C_equal),
      (''flags'', C_first),
      (''unitsPerEm'', C_equal),
      (''created'', C_current_time),
      (''modified'', C_current_time),
      (''xMin'', C_min),
      (''yMin'', C_min),
      (''xMax'', C_max),
      (''yMax'', C_max),
      (''macStyle'', C_first),
      (''lowestRecPPEM'', C_max),
      (''fontDirectionHint'', C_lambda 2),
      (''indexToLocFormat'', C_recalculate),
      (''glyphDataFormat'', C_equal)]"

definition hhea_logic :: "(string \<times> combinator) list" where
  "hhea_logic =
     [(''*'', C_equal),
      (''tableVersion'', C_max),
      (''ascent'', C_max),
      (''descent'', C_min),
      (''lineGap'', C_max),
      (''advanceWidthMax'', C_max),
      (''minLeftSideBearing'', C_min),
      (''minRightSideBearing'', C_min),
      (''xMaxExtent'', C_max),
      (''caretSlopeRise'', C_first),
      (''caretSlopeRun'', C_first),
      (''caretOffset'', C_first),
      (''numberOfHMetrics'', C_recalculate)]"

definition OS_2_logic :: "(string \<times> combinator) list" where
  "OS_2_logic =
     [(''*'', C_first),
      (''version'', C_max),
      (''xAvgCharWidth'', C_recalculate),
      (''fsType'', C_first),
      (''panose'', C_first),
      (''ulUnicodeRange1'', C_bitwise_or),
      (''ulUnicodeRange2'', C_bitwise_or),
      (''ulUnicodeRange3'', C_bitwise_or),
      (''ulUnicodeRange4'', C_bitwise_or),
      (''fsFirstCharIndex'', C_min),
      (''fsLastCharIndex'', C_max),
      (''sTypoAscender'', C_max),
      (''sTypoDescender'', C_min),
      (''sTypoLineGap'', C_max),
      (''usWinAscent'', C_max),
      (''usWinDescent'', C_max),
      (''ulCodePageRange1'', C_bitwise_or),
      (''ulCodePageRange2'', C_bitwise_or),
      (''usMaxContex'', C_max)]"

definition post_logic :: "(string \<times> combinator) list" where
  "post_logic =
     [(''*'', C_first),
      (''formatType'', C_max),
      (''isFixedPitch'', C_min),
      (''minMemType42'', C_max),
      (''maxMemType42'', C_lambda 0),
      (''minMemType1'', C_max),
      (''maxMemType1'', C_lambda 0),
      (''mapping'', C_ignore),
      (''extraNames'', C_ignore)]"

text \<open>
  A \<^verbatim>\<open>merge\<close> method returns its boolean result; the model adds \<open>self\<close> and
  \<open>m.tables\<close> as the method leaves them.
\<close>

definition maxp_merge :: "int \<Rightarrow> table \<Rightarrow> table list \<Rightarrow> error + bool \<times> table \<times> table list" where
  "maxp_merge now self m_tables =
     (case mergeKeys now self maxp_logic m_tables of
        Inl e \<Rightarrow> Inl e
      | Inr self' \<Rightarrow> Inr (True, self', m_tables))"

definition head_merge :: "int \<Rightarrow> table \<Rightarrow> table list \<Rightarrow> error + bool \<times> table \<times> table list" where
  "head_merge now self m_tables =
     (case mergeKeys now self head_logic m_tables of
        Inl e \<Rightarrow> Inl e
      | Inr self' \<Rightarrow> Inr (True, self', m_tables))"

definition hhea_merge :: "int \<Rightarrow> table \<Rightarrow> table list \<Rightarrow> error + bool \<times> table \<times> table list" where
  "hhea_merge now self m_tables =
     (case mergeKeys now self hhea_logic m_tables of
        Inl e \<Rightarrow> Inl e
      | Inr self' \<Rightarrow> Inr (True, self', m_tables))"

definition OS_2_merge :: "int \<Rightarrow> table \<Rightarrow> table list \<Rightarrow> error + bool \<times> table \<times> table list" where
  "OS_2_merge now self m_tables =
     (case mergeKeys now self OS_2_logic m_tables of
        Inl e \<Rightarrow> Inl e
      | Inr self' \<Rightarrow> Inr (True, self', m_tables))"

text \<open>
  The loop of the \<^verbatim>\<open>post\<close> merger over \<^verbatim>\<open>m.tables\<close>; \<open>mapping\<close> is the dict
  \<^verbatim>\<open>self.mapping\<close>, which starts empty. \<^verbatim>\<open>dict.update\<close> with an argument that is not a
  dict is outside the schema of the table and stands as TypeError.
\<close>

fun post_loop :: "(string \<Rightarrow> string option) \<Rightarrow> table list \<Rightarrow> error + (string \<Rightarrow> string option)" where
  "post_loop mapping [] = Inr mapping"
| "post_loop mapping (table # m_tables) =
     (if hasattr table ''mapping'' then
        (case getattr table ''mapping'' of
           Inr (DictV d) \<Rightarrow> post_loop (mapping ++ d) m_tables
         | _ \<Rightarrow> Inl TypeError)
      else post_loop mapping m_tables)"

definition post_merge :: "int \<Rightarrow> table \<Rightarrow> table list \<Rightarrow> error + bool \<times> table \<times> table list" where
  "post_merge now self m_tables =
     (case mergeKeys now self post_logic m_tables of
        Inl e \<Rightarrow> Inl e
      | Inr self' \<Rightarrow>
          (case post_loop Map.empty m_tables of
             Inl e \<Rightarrow> Inl e
           | Inr mapping \<Rightarrow>
               Inr (True,
                    setattr (setattr self' ''mapping'' (DictV mapping)) ''extraNames'' (ListV []),
                    m_tables)))"

subsection \<open>Horizontal and vertical metrics, location and hinting tables\<close>

text \<open>
  An \<^verbatim>\<open>hmtx\<close> or \<^verbatim>\<open>vmtx\<close> table: its dict \<^verbatim>\<open>metrics\<close> from glyph name to the pair of
  advance and side bearing.
\<close>

record mtx_table =
  metrics :: "string \<Rightarrow> (int \<times> int) option"

definition mtx_merge :: "mtx_table \<Rightarrow> mtx_table list \<Rightarrow> bool \<times> mtx_table \<times> mtx_table list" where
  "mtx_merge self m_tables =
     (True,
      self\<lparr>metrics := fold (\<lambda>table self_metrics. self_metrics ++ metrics table) m_tables Map.empty\<rparr>,
      m_tables)"

definition loca_merge :: "'t \<Rightarrow> 't list \<Rightarrow> bool \<times> 't \<times> 't list" where
  "loca_merge self m_tables = (True, self, m_tables)"

text \<open>The merger of \<^verbatim>\<open>prep\<close>, \<^verbatim>\<open>fpgm\<close> and \<^verbatim>\<open>cvt\<close>.\<close>

definition hinting_merge :: "'t \<Rightarrow> 't list \<Rightarrow> bool \<times> 't \<times> 't list" where
  "hinting_merge self m_tables = (False, self, m_tables)"

subsection \<open>Glyph outlines\<close>

text \<open>
  A \<^verbatim>\<open>glyf\<close> table: its dict \<^verbatim>\<open>glyphs\<close> from glyph name to glyph object, in the order
  \<^verbatim>\<open>values()\<close> yields them. The glyph class is not part of \<^verbatim>\<open>merge.py\<close>: the merger
  takes its methods \<^verbatim>\<open>removeHinting\<close>, \<^verbatim>\<open>isComposite\<close> and \<^verbatim>\<open>expand\<close> as parameters,
  each applied to the glyph object and giving the object as the method leaves it.
  This merger changes its source tables; its model is \<open>glyf_merge_heap\<close> below, on the
  store of table objects.
\<close>

record 'g glyf_table =
  glyphs :: "(string \<times> 'g) list"

text \<open>
  The loop \<^verbatim>\<open>for g in table.glyphs.values()\<close>. The glyph objects are changed in place:
  \<open>seen\<close> holds the entries whose glyph the loop has left, and \<^verbatim>\<open>expand\<close> sees the
  table with these and with the current glyph already without hinting.
\<close>

fun values_loop ::
  "('g \<Rightarrow> 'g) \<Rightarrow> ('g \<Rightarrow> bool) \<Rightarrow> ('g \<Rightarrow> 'g glyf_table \<Rightarrow> 'g) \<Rightarrow>
   (string \<times> 'g) list \<Rightarrow> (string \<times> 'g) list \<Rightarrow> (string \<times> 'g) list" where
  "values_loop removeHinting isComposite expand seen [] = seen"
| "values_loop removeHinting isComposite expand seen ((name, g) # rest) =
     (let g' = removeHinting g;
          g'' = (if isComposite g' then expand g' \<lparr>glyphs = seen @ (name, g') # rest\<rparr> else g')
      in values_loop removeHinting isComposite expand (seen @ [(name, g'')]) rest)"

subsection \<open>Character map\<close>

text \<open>
  A subtable of a \<^verbatim>\<open>cmap\<close> table, with its dict \<^verbatim>\<open>cmap\<close> from code point to glyph
  name, and the table.
\<close>

record cmap_subtable =
  format :: int
  platformID :: int
  platEncID :: int
  language :: int
  cmap :: "int \<Rightarrow> string option"

record cmap_table =
  tableVersion :: int
  tables :: "cmap_subtable list"
  numSubTables :: int

text \<open>
  The list \<^verbatim>\<open>cmapTables\<close> of the merger: the subtables of all source tables, in
  source order, with \<^verbatim>\<open>platformID == 3 and platEncID in [1, 10]\<close>.
\<close>

definition cmapTables :: "cmap_table list \<Rightarrow> cmap_subtable list" where
  "cmapTables m_tables =
     concat (map (\<lambda>table. filter (\<lambda>t. platformID t = 3 \<and> platEncID t \<in> set [1, 10])
                                 (tables table)) m_tables)"

text \<open>
  The \<^verbatim>\<open>cmap\<close> merger. \<^verbatim>\<open>max\<close> of no subtable raises ValueError. After the
  \<^verbatim>\<open>assert\<close> the format is 4 or 12, a key of \<^verbatim>\<open>cmap_classes\<close>, whose class creates a
  subtable of that format.
\<close>

definition cmap_merge ::
  "cmap_table \<Rightarrow> cmap_table list \<Rightarrow> error + bool \<times> cmap_table \<times> cmap_table list" where
  "cmap_merge self m_tables =
     (if \<not> list_all (\<lambda>t. format t \<in> set [4, 12]) (cmapTables m_tables) then Inl AssertionError
      else if cmapTables m_tables = [] then Inl ValueError
      else
        (let cmapTable =
               \<lparr>format = Max (set (map format (cmapTables m_tables))),
                platformID = 3,
                platEncID = Max (set (map platEncID (cmapTables m_tables))),
                language = 0,
                cmap = fold (\<lambda>table cmapTable_cmap. cmapTable_cmap ++ cmap table)
                         (cmapTables m_tables) Map.empty\<rparr>;
             self' = self\<lparr>tableVersion := 0, tables := [cmapTable]\<rparr>
         in Inr (True, self'\<lparr>numSubTables := int (length (tables self'))\<rparr>, m_tables)))"

subsection \<open>Glyph definitions\<close>

text \<open>
  The structures of \<^verbatim>\<open>otTables\<close> that the \<^verbatim>\<open>GDEF\<close> merger reads and builds. A field
  that holds an object or \<^verbatim>\<open>None\<close> is an option; an object is true in a condition.
  The records of ligature carets and of attachment points are not looked into: their
  types are parameters. Where \<^verbatim>\<open>otTables\<close> uses one attribute name in two classes, the
  field has the name of its class in front (\<^verbatim>\<open>Coverage.glyphs\<close> is
  \<open>Coverage_glyphs\<close>).
\<close>

record Coverage_t =
  Coverage_glyphs :: "string list"

record 'lg LigCaretList_t =
  LigCaretList_Coverage :: Coverage_t
  LigGlyph :: "'lg list"
  LigCaretList_GlyphCount :: int

record ClassDef_t =
  classDefs :: "string \<Rightarrow> int option"

record 'ap AttachList_t =
  AttachList_Coverage :: Coverage_t
  AttachPoint :: "'ap list"
  AttachList_GlyphCount :: int

record ('lg, 'ap) GDEF_t =
  Version :: real
  LigCaretList :: "'lg LigCaretList_t option"
  MarkAttachClassDef :: "ClassDef_t option"
  GlyphClassDef :: "ClassDef_t option"
  AttachList :: "'ap AttachList_t option"

record ('lg, 'ap) GDEF_table =
  table :: "('lg, 'ap) GDEF_t"

text \<open>
  The four loops \<^verbatim>\<open>for table in m.tables\<close> of the merger, each with the lists or the
  dict it extends as its state.
\<close>

fun LigCaretList_loop ::
  "('lg, 'ap) GDEF_table list \<Rightarrow> string list \<times> 'lg list \<Rightarrow> string list \<times> 'lg list" where
  "LigCaretList_loop [] (gs, ligGlyphs) = (gs, ligGlyphs)"
| "LigCaretList_loop (t # m_tables) (gs, ligGlyphs) =
     (case LigCaretList (table t) of
        Some l \<Rightarrow>
          LigCaretList_loop m_tables
            (gs @ Coverage_glyphs (LigCaretList_Coverage l), ligGlyphs @ LigGlyph l)
      | None \<Rightarrow> LigCaretList_loop m_tables (gs, ligGlyphs))"

fun MarkAttachClassDef_loop ::
  "('lg, 'ap) GDEF_table list \<Rightarrow> (string \<Rightarrow> int option) \<Rightarrow> (string \<Rightarrow> int option)" where
  "MarkAttachClassDef_loop [] cds = cds"
| "MarkAttachClassDef_loop (t # m_tables) cds =
     (case MarkAttachClassDef (table t) of
        Some c \<Rightarrow> MarkAttachClassDef_loop m_tables (cds ++ classDefs c)
      | None \<Rightarrow> MarkAttachClassDef_loop m_tables cds)"

fun GlyphClassDef_loop ::
  "('lg, 'ap) GDEF_table list \<Rightarrow> (string \<Rightarrow> int option) \<Rightarrow> (string \<Rightarrow> int option)" where
  "GlyphClassDef_loop [] cds = cds"
| "GlyphClassDef_loop (t # m_tables) cds =
     (case GlyphClassDef (table t) of
        Some c \<Rightarrow> GlyphClassDef_loop m_tables (cds ++ classDefs c)
      | None \<Rightarrow> GlyphClassDef_loop m_tables cds)"

fun AttachList_loop ::
  "('lg, 'ap) GDEF_table list \<Rightarrow> string list \<times> 'ap list \<Rightarrow> string list \<times> 'ap list" where
  "AttachList_loop [] (gs, attachPoints) = (gs, attachPoints)"
| "AttachList_loop (t # m_tables) (gs, attachPoints) =
     (case AttachList (table t) of
        Some l \<Rightarrow>
          AttachList_loop m_tables
            (gs @ Coverage_glyphs (AttachList_Coverage l), attachPoints @ AttachPoint l)
      | None \<Rightarrow> AttachList_loop m_tables (gs, attachPoints))"

definition GDEF_merge ::
  "('lg, 'ap) GDEF_table \<Rightarrow> ('lg, 'ap) GDEF_table list \<Rightarrow>
   bool \<times> ('lg, 'ap) GDEF_table \<times> ('lg, 'ap) GDEF_table list" where
  "GDEF_merge self m_tables =
     (let ligCaretList =
            (if list_ex (\<lambda>t. LigCaretList (table t) \<noteq> None) m_tables then
               (case LigCaretList_loop m_tables ([], []) of
                  (gs, ligGlyphs) \<Rightarrow>
                    Some \<lparr>LigCaretList_Coverage = \<lparr>Coverage_glyphs = gs\<rparr>,
                          LigGlyph = ligGlyphs,
                          LigCaretList_GlyphCount = int (length ligGlyphs)\<rparr>)
             else None);
          markAttachClassDef =
            (if list_ex (\<lambda>t. MarkAttachClassDef (table t) \<noteq> None) m_tables then
               Some \<lparr>classDefs = MarkAttachClassDef_loop m_tables Map.empty\<rparr>
             else None);
          glyphClassDef =
            (if list_ex (\<lambda>t. GlyphClassDef (table t) \<noteq> None) m_tables then
               Some \<lparr>classDefs = GlyphClassDef_loop m_tables Map.empty\<rparr>
             else None);
          attachList =
            (if list_ex (\<lambda>t. AttachList (table t) \<noteq> None) m_tables then
               (case AttachList_loop m_tables ([], []) of
                  (gs, attachPoints) \<Rightarrow>
                    Some \<lparr>AttachList_Coverage = \<lparr>Coverage_glyphs = gs\<rparr>,
                          AttachPoint = attachPoints,
                          AttachList_GlyphCount = int (length attachPoints)\<rparr>)
             else None)
      in (True,
          self\<lparr>table := \<lparr>Version = 1,
                           LigCaretList = ligCaretList,
                           MarkAttachClassDef = markAttachClassDef,
                           GlyphClassDef = glyphClassDef,
                           AttachList = attachList\<rparr>\<rparr>,
          m_tables))"

subsection \<open>Tables as objects\<close>

text \<open>
  The models above take tables by value. The \<^verbatim>\<open>merge\<close> methods work on objects: the new
  table \<^verbatim>\<open>self\<close> and the source tables \<^verbatim>\<open>m.tables\<close> are references, and an assignment to
  an attribute changes the object for every holder of a reference to it. Here a store
  holds the table objects of one class: the address of an object is its position, the
  object with address \<open>a\<close> in the store \<open>h\<close> is \<open>h ! a\<close>, and an assignment to an
  attribute of it is an update of the store at \<open>a\<close>. The methods are run statement by
  statement: every read is a read of the store as it is at that statement.
\<close>

type_synonym 't heap = "'t list"

text \<open>Creating an object: it gets the next address.\<close>

definition alloc :: "'t heap \<Rightarrow> 't \<Rightarrow> 't heap \<times> nat" where
  "alloc h obj = (h @ [obj], length h)"

text \<open>
  The step of \<^verbatim>\<open>Merger.merge\<close> for one tag: \<^verbatim>\<open>self.tables\<close> is set to the tables of
  the fonts, \<^verbatim>\<open>table = clazz(tag)\<close> creates the object \<open>new\<close>, and \<^verbatim>\<open>table.merge(self)\<close>
  runs the method \<open>table_merge\<close> of the class. The result is the method's result, the
  address of the new table and the store.
\<close>

definition merge_tag ::
  "(nat \<Rightarrow> nat list \<Rightarrow> 't heap \<Rightarrow> error + bool \<times> 't heap) \<Rightarrow> 't \<Rightarrow> nat list \<Rightarrow> 't heap \<Rightarrow>
   error + bool \<times> nat \<times> 't heap" where
  "merge_tag table_merge new m_tables h =
     (case alloc h new of
        (h', tbl) \<Rightarrow>
          (case table_merge tbl m_tables h' of
             Inl e \<Rightarrow> Inl e
           | Inr (r, h'') \<Rightarrow> Inr (r, tbl, h'')))"

text \<open>\<^verbatim>\<open>_mergeKeys\<close>: \<^verbatim>\<open>setattr(return_table, key, key_value)\<close> writes the store.\<close>

fun mergeKeys_loop_heap ::
  "int \<Rightarrow> (string \<times> combinator) list \<Rightarrow> nat list \<Rightarrow> string list \<Rightarrow> nat \<Rightarrow> table heap \<Rightarrow>
   error + table heap" where
  "mergeKeys_loop_heap now logic m_tables [] return_table h = Inr h"
| "mergeKeys_loop_heap now logic m_tables (key # keys) return_table h =
     (case lookup_logic logic key of
        Inl e \<Rightarrow> Inl e
      | Inr merge_logic \<Rightarrow>
          if merge_logic = C_ignore then
            mergeKeys_loop_heap now logic m_tables keys return_table h
          else
            (case getattrs (map (nth h) m_tables) key of
               Inl e \<Rightarrow> Inl e
             | Inr vs \<Rightarrow>
                 (case call now merge_logic vs of
                    Inl e \<Rightarrow> Inl e
                  | Inr key_value \<Rightarrow>
                      mergeKeys_loop_heap now logic m_tables keys return_table
                        (h[return_table := setattr (h ! return_table) key key_value]))))"

definition mergeKeys_heap ::
  "int \<Rightarrow> nat \<Rightarrow> (string \<times> combinator) list \<Rightarrow> nat list \<Rightarrow> table heap \<Rightarrow> error + table heap" where
  "mergeKeys_heap now return_table logic m_tables h =
     mergeKeys_loop_heap now (AList.update ''tableTag'' C_equal logic) m_tables
       (allKeys (map (nth h) m_tables)) return_table h"

definition maxp_merge_heap :: "int \<Rightarrow> nat \<Rightarrow> nat list \<Rightarrow> table heap \<Rightarrow> error + bool \<times> table heap" where
  "maxp_merge_heap now self m_tables h =
     (case mergeKeys_heap now self maxp_logic m_tables h of
        Inl e \<Rightarrow> Inl e
      | Inr h' \<Rightarrow> Inr (True, h'))"

definition head_merge_heap :: "int \<Rightarrow> nat \<Rightarrow> nat list \<Rightarrow> table heap \<Rightarrow> error + bool \<times> table heap" where
  "head_merge_heap now self m_tables h =
     (case mergeKeys_heap now self head_logic m_tables h of
        Inl e \<Rightarrow> Inl e
      | Inr h' \<Rightarrow> Inr (True, h'))"

definition hhea_merge_heap :: "int \<Rightarrow> nat \<Rightarrow> nat list \<Rightarrow> table heap \<Rightarrow> error + bool \<times> table heap" where
  "hhea_merge_heap now self m_tables h =
     (case mergeKeys_heap now self hhea_logic m_tables h of
        Inl e \<Rightarrow> Inl e
      | Inr h' \<Rightarrow> Inr (True, h'))"

definition OS_2_merge_heap :: "int \<Rightarrow> nat \<Rightarrow> nat list \<Rightarrow> table heap \<Rightarrow> error + bool \<times> table heap" where
  "OS_2_merge_heap now self m_tables h =
     (case mergeKeys_heap now self OS_2_logic m_tables h of
        Inl e \<Rightarrow> Inl e
      | Inr h' \<Rightarrow> Inr (True, h'))"

text \<open>
  The \<^verbatim>\<open>post\<close> merger: \<^verbatim>\<open>self.mapping.update(table.mapping)\<close> reads the dict of
  \<^verbatim>\<open>self\<close> and of the source table and writes the dict of \<^verbatim>\<open>self\<close>.
\<close>

fun post_loop_heap :: "nat \<Rightarrow> nat list \<Rightarrow> table heap \<Rightarrow> error + table heap" where
  "post_loop_heap self [] h = Inr h"
| "post_loop_heap self (a # m_tables) h =
     (if hasattr (h ! a) ''mapping'' then
        (case getattr (h ! self) ''mapping'' of
           Inr (DictV mapping) \<Rightarrow>
             (case getattr (h ! a) ''mapping'' of
                Inr (DictV d) \<Rightarrow>
                  post_loop_heap self m_tables
                    (h[self := setattr (h ! self) ''mapping'' (DictV (mapping ++ d))])
              | _ \<Rightarrow> Inl TypeError)
         | _ \<Rightarrow> Inl TypeError)
      else post_loop_heap self m_tables h)"

definition post_merge_heap :: "int \<Rightarrow> nat \<Rightarrow> nat list \<Rightarrow> table heap \<Rightarrow> error + bool \<times> table heap" where
  "post_merge_heap now self m_tables h =
     (case mergeKeys_heap now self post_logic m_tables h of
        Inl e \<Rightarrow> Inl e
      | Inr h1 \<Rightarrow>
          (case post_loop_heap self m_tables
                  (h1[self := setattr (h1 ! self) ''mapping'' (DictV Map.empty)]) of
             Inl e \<Rightarrow> Inl e
           | Inr h2 \<Rightarrow> Inr (True, h2[self := setattr (h2 ! self) ''extraNames'' (ListV [])])))"

text \<open>The mergers of the metrics tables, of \<^verbatim>\<open>loca\<close> and of the hinting tables.\<close>

fun mtx_loop_heap :: "nat \<Rightarrow> nat list \<Rightarrow> mtx_table heap \<Rightarrow> mtx_table heap" where
  "mtx_loop_heap self [] h = h"
| "mtx_loop_heap self (a # m_tables) h =
     mtx_loop_heap self m_tables
       (h[self := (h ! self)\<lparr>metrics := metrics (h ! self) ++ metrics (h ! a)\<rparr>])"

definition mtx_merge_heap :: "nat \<Rightarrow> nat list \<Rightarrow> mtx_table heap \<Rightarrow> error + bool \<times> mtx_table heap" where
  "mtx_merge_heap self m_tables h =
     Inr (True, mtx_loop_heap self m_tables (h[self := (h ! self)\<lparr>metrics := Map.empty\<rparr>]))"

definition loca_merge_heap :: "nat \<Rightarrow> nat list \<Rightarrow> 't heap \<Rightarrow> error + bool \<times> 't heap" where
  "loca_merge_heap self m_tables h = Inr (True, h)"

definition hinting_merge_heap :: "nat \<Rightarrow> nat list \<Rightarrow> 't heap \<Rightarrow> error + bool \<times> 't heap" where
  "hinting_merge_heap self m_tables h = Inr (False, h)"

text \<open>
  \<^verbatim>\<open>d.update(other)\<close> on dicts that are association lists: the entries of \<open>other\<close> are
  set in their order, a new key after the keys that \<open>d\<close> has.
\<close>

definition dict_update :: "('k \<times> 'v) list \<Rightarrow> ('k \<times> 'v) list \<Rightarrow> ('k \<times> 'v) list" where
  "dict_update d other = fold (\<lambda>(k, v). AList.update k v) other d"

text \<open>
  The \<^verbatim>\<open>glyf\<close> merger. The loop over \<^verbatim>\<open>table.glyphs.values()\<close> changes the glyph objects
  of the source table \<^verbatim>\<open>table\<close>, which is the object at \<open>a\<close>; then
  \<^verbatim>\<open>self.glyphs.update(table.glyphs)\<close> writes the dict of \<^verbatim>\<open>self\<close>.
\<close>

fun glyf_loop_heap ::
  "('g \<Rightarrow> 'g) \<Rightarrow> ('g \<Rightarrow> bool) \<Rightarrow> ('g \<Rightarrow> 'g glyf_table \<Rightarrow> 'g) \<Rightarrow>
   nat \<Rightarrow> nat list \<Rightarrow> 'g glyf_table heap \<Rightarrow> 'g glyf_table heap" where
  "glyf_loop_heap removeHinting isComposite expand self [] h = h"
| "glyf_loop_heap removeHinting isComposite expand self (a # m_tables) h =
     (let h' = h[a := (h ! a)\<lparr>glyphs :=
                   values_loop removeHinting isComposite expand [] (glyphs (h ! a))\<rparr>];
          h'' = h'[self := (h' ! self)\<lparr>glyphs :=
                   dict_update (glyphs (h' ! self)) (glyphs (h' ! a))\<rparr>]
      in glyf_loop_heap removeHinting isComposite expand self m_tables h'')"

definition glyf_merge_heap ::
  "('g \<Rightarrow> 'g) \<Rightarrow> ('g \<Rightarrow> bool) \<Rightarrow> ('g \<Rightarrow> 'g glyf_table \<Rightarrow> 'g) \<Rightarrow>
   nat \<Rightarrow> nat list \<Rightarrow> 'g glyf_table heap \<Rightarrow> error + bool \<times> 'g glyf_table heap" where
  "glyf_merge_heap removeHinting isComposite expand self m_tables h =
     Inr (True, glyf_loop_heap removeHinting isComposite expand self m_tables
                  (h[self := (h ! self)\<lparr>glyphs := []\<rparr>]))"

text \<open>
  What the specification says of a source glyph, for comparison with the loop: its
  hinting instructions are stripped and then, if it is composite, it is expanded with
  the outline table of the same font. The table that \<^verbatim>\<open>expand\<close> gets holds the entries
  \<open>seen\<close> before the glyph, the stripped glyph under the name of the entry, and the
  entries \<open>rest\<close> after it.
\<close>

definition stripped_expanded ::
  "('g \<Rightarrow> 'g) \<Rightarrow> ('g \<Rightarrow> bool) \<Rightarrow> ('g \<Rightarrow> 'g glyf_table \<Rightarrow> 'g) \<Rightarrow>
   (string \<times> 'g) list \<Rightarrow> string \<times> 'g \<Rightarrow> (string \<times> 'g) list \<Rightarrow> 'g" where
  "stripped_expanded removeHinting isComposite expand seen entry rest =
     (if isComposite (removeHinting (snd entry)) then
        expand (removeHinting (snd entry))
          \<lparr>glyphs = seen @ (fst entry, removeHinting (snd entry)) # rest\<rparr>
      else removeHinting (snd entry))"

text \<open>
  The \<^verbatim>\<open>cmap\<close> merger: the subtables are read from the source tables, the new
  subtable is built, then the three attributes of \<^verbatim>\<open>self\<close> are assigned.
\<close>

definition cmap_merge_heap :: "nat \<Rightarrow> nat list \<Rightarrow> cmap_table heap \<Rightarrow> error + bool \<times> cmap_table heap" where
  "cmap_merge_heap self m_tables h =
     (if \<not> list_all (\<lambda>t. format t \<in> set [4, 12]) (cmapTables (map (nth h) m_tables)) then
        Inl AssertionError
      else if cmapTables (map (nth h) m_tables) = [] then Inl ValueError
      else
        (let cmapTable =
               \<lparr>format = Max (set (map format (cmapTables (map (nth h) m_tables)))),
                platformID = 3,
                platEncID = Max (set (map platEncID (cmapTables (map (nth h) m_tables)))),
                language = 0,
                cmap = fold (\<lambda>t cmapTable_cmap. cmapTable_cmap ++ cmap t)
                         (cmapTables (map (nth h) m_tables)) Map.empty\<rparr>;
             h1 = h[self := (h ! self)\<lparr>tableVersion := 0\<rparr>];
             h2 = h1[self := (h1 ! self)\<lparr>tables := [cmapTable]\<rparr>];
             h3 = h2[self := (h2 ! self)\<lparr>numSubTables := int (length (tables (h2 ! self)))\<rparr>]
         in Inr (True, h3)))"

text \<open>
  The \<^verbatim>\<open>GDEF\<close> merger: \<^verbatim>\<open>self.table\<close> is assigned first, a structure whose optional
  fields are not set yet; then each of the four fields is computed from the source
  tables and assigned.
\<close>

definition GDEF_merge_heap ::
  "nat \<Rightarrow> nat list \<Rightarrow> ('lg, 'ap) GDEF_table heap \<Rightarrow> error + bool \<times> ('lg, 'ap) GDEF_table heap" where
  "GDEF_merge_heap self m_tables h =
     (let h0 = h[self := (h ! self)\<lparr>table :=
                  \<lparr>Version = 1, LigCaretList = None, MarkAttachClassDef = None,
                   GlyphClassDef = None, AttachList = None\<rparr>\<rparr>];
          ligCaretList =
            (if list_ex (\<lambda>t. LigCaretList (table t) \<noteq> None) (map (nth h0) m_tables) then
               (case LigCaretList_loop (map (nth h0) m_tables) ([], []) of
                  (gs, ligGlyphs) \<Rightarrow>
                    Some \<lparr>LigCaretList_Coverage = \<lparr>Coverage_glyphs = gs\<rparr>,
                          LigGlyph = ligGlyphs,
                          LigCaretList_GlyphCount = int (length ligGlyphs)\<rparr>)
             else None);
          h1 = h0[self := (h0 ! self)\<lparr>table := (table (h0 ! self))\<lparr>LigCaretList := ligCaretList\<rparr>\<rparr>];
          markAttachClassDef =
            (if list_ex (\<lambda>t. MarkAttachClassDef (table t) \<noteq> None) (map (nth h1) m_tables) then
               Some \<lparr>classDefs = MarkAttachClassDef_loop (map (nth h1) m_tables) Map.empty\<rparr>
             else None);
          h2 = h1[self := (h1 ! self)\<lparr>table :=
                  (table (h1 ! self))\<lparr>MarkAttachClassDef := markAttachClassDef\<rparr>\<rparr>];
          glyphClassDef =
            (if list_ex (\<lambda>t. GlyphClassDef (table t) \<noteq> None) (map (nth h2) m_tables) then
               Some \<lparr>classDefs = GlyphClassDef_loop (map (nth h2) m_tables) Map.empty\<rparr>
             else None);
          h3 = h2[self := (h2 ! self)\<lparr>table := (table (h2 ! self))\<lparr>GlyphClassDef := glyphClassDef\<rparr>\<rparr>];
          attachList =
            (if list_ex (\<lambda>t. AttachList (table t) \<noteq> None) (map (nth h3) m_tables) then
               (case AttachList_loop (map (nth h3) m_tables) ([], []) of
                  (gs, attachPoints) \<Rightarrow>
                    Some \<lparr>AttachList_Coverage = \<lparr>Coverage_glyphs = gs\<rparr>,
                          AttachPoint = attachPoints,
                          AttachList_GlyphCount = int (length attachPoints)\<rparr>)
             else None);
          h4 = h3[self := (h3 ! self)\<lparr>table := (table (h3 ! self))\<lparr>AttachList := attachList\<rparr>\<rparr>]
      in Inr (True, h4))"

text \<open>
  The frame property of a \<^verbatim>\<open>merge\<close> method, in the words of the specification: in a
  step of \<^verbatim>\<open>Merger.merge\<close> on valid source addresses that does not raise, the output
  table is a freshly created object (its address is that of no object of the store
  before the step, so it is none of the source tables), and every table that was in the
  store before the step, the source tables among them, is unchanged.
\<close>

definition fresh_output_sources_unchanged ::
  "(nat \<Rightarrow> nat list \<Rightarrow> 't heap \<Rightarrow> error + bool \<times> 't heap) \<Rightarrow> bool" where
  "fresh_output_sources_unchanged table_merge \<longleftrightarrow>
     (\<forall>new m_tables h r tbl h'.
        (\<forall>a\<in>set m_tables. a < length h)
        \<and> merge_tag table_merge new m_tables h = Inr (r, tbl, h')
        \<longrightarrow> tbl = length h \<and> tbl \<notin> set m_tables \<and> length h' = Suc (length h)
            \<and> (\<forall>a < length h. h' ! a = h ! a))"

subsection \<open>A glyph class\<close>

text \<open>
  Modelled from the spec: the glyph class \<^verbatim>\<open>fontTools.ttLib.tables._g_l_y_f.Glyph\<close> is
  not among the sources. By section 4.6 of the specification a glyph holds embedded
  hinting instructions, which \<^verbatim>\<open>removeHinting\<close> strips, and a composite glyph is one
  that refers to other glyphs, which \<^verbatim>\<open>expand\<close> materializes. The record keeps that
  much: the instructions, whether the glyph is composite, and whether it is expanded.
\<close>

record Glyph =
  program :: "nat list"
  composite :: bool
  expanded :: bool

definition removeHinting :: "Glyph \<Rightarrow> Glyph" where
  "removeHinting g = g\<lparr>program := []\<rparr>"

definition isComposite :: "Glyph \<Rightarrow> bool" where
  "isComposite g = composite g"

definition expand :: "Glyph \<Rightarrow> Glyph glyf_table \<Rightarrow> Glyph" where
  "expand g glyfTable = g\<lparr>expanded := True\<rparr>"

subsection \<open>Example tables\<close>

text \<open>
  Two character maps. The first has a Windows BMP subtable of format 4 and a Macintosh
  subtable, the second a Windows full-repertoire subtable of format 12; both map the
  code point 99.
\<close>

definition cmap_A :: cmap_table where
  "cmap_A =
     \<lparr>tableVersion = 0,
      tables = [\<lparr>format = 4, platformID = 3, platEncID = 1, language = 0,
                 cmap = [97 \<mapsto> ''a#0'', 99 \<mapsto> ''c#0'']\<rparr>,
                \<lparr>format = 6, platformID = 1, platEncID = 0, language = 0,
                 cmap = [97 \<mapsto> ''a#0'']\<rparr>],
      numSubTables = 2\<rparr>"

definition cmap_B :: cmap_table where
  "cmap_B =
     \<lparr>tableVersion = 0,
      tables = [\<lparr>format = 12, platformID = 3, platEncID = 10, language = 0,
                 cmap = [98 \<mapsto> ''a#1'', 99 \<mapsto> ''c#1'']\<rparr>],
      numSubTables = 1\<rparr>"

text \<open>
  Two glyph-definition tables: the first has ligature carets and glyph classes, the
  second glyph classes only.
\<close>

definition gdef_A :: "(int list, nat list) GDEF_table" where
  "gdef_A =
     \<lparr>table = \<lparr>Version = 1,
        LigCaretList = Some \<lparr>LigCaretList_Coverage = \<lparr>Coverage_glyphs = [''f_i#0'']\<rparr>,
                             LigGlyph = [[250]], LigCaretList_GlyphCount = 1\<rparr>,
        MarkAttachClassDef = None,
        GlyphClassDef = Some \<lparr>classDefs = [''f_i#0'' \<mapsto> 2]\<rparr>,
        AttachList = None\<rparr>\<rparr>"

definition gdef_B :: "(int list, nat list) GDEF_table" where
  "gdef_B =
     \<lparr>table = \<lparr>Version = 1,
        LigCaretList = None,
        MarkAttachClassDef = None,
        GlyphClassDef = Some \<lparr>classDefs = [''acute#1'' \<mapsto> 3]\<rparr>,
        AttachList = None\<rparr>\<rparr>"

text \<open>
  Three \<^verbatim>\<open>post\<close> tables: the first and the third of format 2, with extra names and a
  mapping, the second of format 3, which has neither attribute.
\<close>

definition post_A :: table where
  "post_A = [(''tableTag'', StrV ''post''), (''formatType'', IntV 2), (''isFixedPitch'', IntV 0),
             (''extraNames'', ListV [''a.alt'']),
             (''mapping'', DictV [''a#0'' \<mapsto> ''a'', ''x'' \<mapsto> ''one''])]"

definition post_B :: table where
  "post_B = [(''tableTag'', StrV ''post''), (''formatType'', IntV 3), (''isFixedPitch'', IntV 0)]"

definition post_C :: table where
  "post_C = [(''tableTag'', StrV ''post''), (''formatType'', IntV 2), (''isFixedPitch'', IntV 1),
             (''extraNames'', ListV [''q'']),
             (''mapping'', DictV [''a#2'' \<mapsto> ''a'', ''x'' \<mapsto> ''two''])]"

text \<open>
  Two outline tables. The first has a simple glyph with hinting instructions and a
  composite glyph that is not expanded; the second has one simple glyph without
  instructions. And a metrics table.
\<close>

definition glyf_hinted :: "Glyph glyf_table" where
  "glyf_hinted =
     \<lparr>glyphs = [(''a#0'', \<lparr>program = [176, 1], composite = False, expanded = True\<rparr>),
                (''aacute#0'', \<lparr>program = [], composite = True, expanded = False\<rparr>)]\<rparr>"

definition glyf_plain :: "Glyph glyf_table" where
  "glyf_plain = \<lparr>glyphs = [(''a#1'', \<lparr>program = [], composite = False, expanded = True\<rparr>)]\<rparr>"

definition hmtx_A :: mtx_table where
  "hmtx_A = \<lparr>metrics = [''a#0'' \<mapsto> (500, 10)]\<rparr>"

section \<open>Properties\<close>

subsection \<open>The unifier computes the renamed concatenation\<close>

lemma rename_loop_eq:
  "i \<le> length glyphOrder \<Longrightarrow>
   rename_loop n i glyphOrder mega =
     (take i glyphOrder @ renamed n (drop i glyphOrder), mega @ renamed n (drop i glyphOrder))"
proof (induction n i glyphOrder mega rule: rename_loop.induct)
  case (1 n i glyphOrder mega)
  show ?case
  proof (cases "i < length glyphOrder")
    case True
    let ?g = "glyphOrder ! i @ ''#'' @ repr n"
    have d: "drop i glyphOrder = glyphOrder ! i # drop (Suc i) glyphOrder"
      using True by (simp add: Cons_nth_drop_Suc)
    have t: "take (Suc i) (glyphOrder[i := ?g]) = take i glyphOrder @ [?g]"
      using True by (simp add: take_Suc_conv_app_nth)
    have "rename_loop n i glyphOrder mega = rename_loop n (Suc i) (glyphOrder[i := ?g]) (mega @ [?g])"
      using True by (subst rename_loop.simps) (simp add: Let_def)
    also have "\<dots> = (take (Suc i) (glyphOrder[i := ?g]) @ renamed n (drop (Suc i) (glyphOrder[i := ?g])),
        (mega @ [?g]) @ renamed n (drop (Suc i) (glyphOrder[i := ?g])))"
      using True by (intro "1.IH") simp_all
    also have "\<dots> = (take i glyphOrder @ renamed n (drop i glyphOrder), mega @ renamed n (drop i glyphOrder))"
      unfolding t by (simp add: d renamed_def)
    finally show ?thesis .
  next
    case False
    with "1.prems" show ?thesis
      by (subst rename_loop.simps) (simp add: renamed_def)
  qed
qed

lemma fonts_loop_eq:
  "n \<le> length glyphOrders \<Longrightarrow>
   fonts_loop n glyphOrders mega =
     (take n glyphOrders @ map (\<lambda>(k, g). renamed k g) (enumerate n (drop n glyphOrders)),
      mega @ concat (map (\<lambda>(k, g). renamed k g) (enumerate n (drop n glyphOrders))))"
proof (induction n glyphOrders mega rule: fonts_loop.induct)
  case (1 n glyphOrders mega)
  show ?case
  proof (cases "n < length glyphOrders")
    case True
    let ?r = "renamed n (glyphOrders ! n)"
    have d: "drop n glyphOrders = glyphOrders ! n # drop (Suc n) glyphOrders"
      using True by (simp add: Cons_nth_drop_Suc)
    have r: "rename_loop n 0 (glyphOrders ! n) mega = (?r, mega @ ?r)"
      by (simp add: rename_loop_eq)
    have t: "take (Suc n) (glyphOrders[n := ?r]) = take n glyphOrders @ [?r]"
      using True by (simp add: take_Suc_conv_app_nth)
    have "fonts_loop n glyphOrders mega = fonts_loop (Suc n) (glyphOrders[n := ?r]) (mega @ ?r)"
      using True by (subst fonts_loop.simps) (simp add: r)
    also have "\<dots> = (take (Suc n) (glyphOrders[n := ?r]) @
          map (\<lambda>(k, g). renamed k g) (enumerate (Suc n) (drop (Suc n) (glyphOrders[n := ?r]))),
        (mega @ ?r) @ concat (map (\<lambda>(k, g). renamed k g) (enumerate (Suc n) (drop (Suc n) (glyphOrders[n := ?r])))))"
      using True by (intro "1.IH"[OF True r[symmetric]]) simp_all
    also have "\<dots> = (take n glyphOrders @ map (\<lambda>(k, g). renamed k g) (enumerate n (drop n glyphOrders)),
      mega @ concat (map (\<lambda>(k, g). renamed k g) (enumerate n (drop n glyphOrders))))"
      unfolding t by (simp add: d)
    finally show ?thesis .
  next
    case False
    with "1.prems" show ?thesis
      by (subst fonts_loop.simps) simp
  qed
qed

lemma mergeGlyphOrders_eq:
  "mergeGlyphOrders glyphOrders = (renamed_fonts glyphOrders, concat (renamed_fonts glyphOrders))"
  by (simp add: mergeGlyphOrders_def fonts_loop_eq renamed_fonts_def)

lemma length_concat_renamed:
  "length (concat (map (\<lambda>(k, g). renamed k g) (enumerate n gos))) = sum_list (map length gos)"
  by (induction gos arbitrary: n) (simp_all add: renamed_def)

subsection \<open>The renaming is injective\<close>

lemma repr_not_Nil: "repr n \<noteq> []"
  by (subst repr.simps) simp

lemma digit_char_inj: "a < 10 \<Longrightarrow> b < 10 \<Longrightarrow> digit_char a = digit_char b \<Longrightarrow> a = b"
proof -
  assume a: "a < 10" and b: "b < 10" and e: "digit_char a = digit_char b"
  from e have "(of_char (digit_char a) :: nat) = of_char (digit_char b)" by simp
  with a b show "a = b" by (simp add: digit_char_def)
qed

lemma digit_char_not_hash: "d < 10 \<Longrightarrow> digit_char d \<noteq> CHR ''#''"
proof
  assume d: "d < 10" and e: "digit_char d = CHR ''#''"
  from e have "(of_char (digit_char d) :: nat) = of_char (CHR ''#'')" by simp
  with d show False by (simp add: digit_char_def)
qed

lemma hash_notin_repr: "CHR ''#'' \<notin> set (repr n)"
proof (induction n rule: repr.induct)
  case (1 n)
  show ?case
  proof (cases "n < 10")
    case True
    then show ?thesis using digit_char_not_hash[of n] by (subst repr.simps) auto
  next
    case False
    have "n mod 10 < 10" by simp
    then have "digit_char (n mod 10) \<noteq> CHR ''#''" by (rule digit_char_not_hash)
    with False "1.IH" show ?thesis by (subst repr.simps) auto
  qed
qed

lemma repr_inj: "repr n = repr m \<Longrightarrow> n = m"
proof (induction n arbitrary: m rule: repr.induct)
  case (1 n)
  show ?case
  proof (cases "n < 10")
    case n: True
    show ?thesis
    proof (cases "m < 10")
      case True
      with n "1.prems" show ?thesis
        by (simp add: repr.simps[of n] repr.simps[of m] digit_char_inj)
    next
      case False
      with n "1.prems" repr_not_Nil[of "m div 10"] show ?thesis
        by (simp add: repr.simps[of n] repr.simps[of m] Cons_eq_append_conv)
    qed
  next
    case n: False
    show ?thesis
    proof (cases "m < 10")
      case True
      with n "1.prems" repr_not_Nil[of "n div 10"] show ?thesis
        by (simp add: repr.simps[of n] repr.simps[of m] append_eq_Cons_conv)
    next
      case False
      with n "1.prems" have e: "repr (n div 10) = repr (m div 10)"
        and d: "digit_char (n mod 10) = digit_char (m mod 10)"
        by (simp_all add: repr.simps[of n] repr.simps[of m])
      from "1.IH"[OF n e] have "n div 10 = m div 10" .
      moreover from d have "n mod 10 = m mod 10" by (intro digit_char_inj) simp_all
      ultimately show ?thesis by (metis div_mult_mod_eq)
    qed
  qed
qed

lemma suffix_split:
  assumes "a @ CHR ''#'' # r = b @ CHR ''#'' # s" "CHR ''#'' \<notin> set r" "CHR ''#'' \<notin> set s"
  shows "a = b \<and> r = s"
  using assms
proof (induction a arbitrary: b)
  case Nil
  then show ?case by (cases b) auto
next
  case (Cons x a)
  then show ?case by (cases b) auto
qed

lemma rename_inj:
  "g @ CHR ''#'' # repr n = h @ CHR ''#'' # repr m \<longleftrightarrow> g = h \<and> n = m"
  using suffix_split[of g "repr n" h "repr m"] hash_notin_repr repr_inj by auto

lemma tagged_simps:
  "tagged n [] = []"
  "tagged n (go # gos) = map (Pair n) go @ tagged (Suc n) gos"
  by (simp_all add: tagged_def)

lemma tagged_fst: "p \<in> set (tagged n gos) \<Longrightarrow> n \<le> fst p"
  by (induction gos arbitrary: n) (fastforce simp: tagged_simps)+

lemma distinct_tagged: "distinct (tagged n gos) \<longleftrightarrow> (\<forall>go\<in>set gos. distinct go)"
proof (induction gos arbitrary: n)
  case Nil
  show ?case by (simp add: tagged_simps)
next
  case (Cons go gos)
  have "set (map (Pair n) go) \<inter> set (tagged (Suc n) gos) = {}"
    using tagged_fst[of _ "Suc n" gos] by fastforce
  moreover have "distinct (map (Pair n) go) = distinct go"
    by (simp add: distinct_map inj_on_def)
  ultimately show ?case
    using Cons.IH[of "Suc n"] by (simp add: tagged_simps)
qed

lemma concat_renamed_tagged:
  "concat (map (\<lambda>(k, g). renamed k g) (enumerate n gos)) =
   map (\<lambda>(k, g). g @ ''#'' @ repr k) (tagged n gos)"
  by (induction gos arbitrary: n) (simp_all add: tagged_simps renamed_def)

lemma distinct_mega:
  "distinct (concat (renamed_fonts gos)) \<longleftrightarrow> (\<forall>go\<in>set gos. distinct go)"
proof -
  have "inj_on (\<lambda>(k, g). g @ ''#'' @ repr k) (set (tagged 0 gos))"
    by (auto simp: inj_on_def rename_inj)
  then show ?thesis
    by (simp add: renamed_fonts_def concat_renamed_tagged distinct_map distinct_tagged)
qed

lemma repr_0: "repr 0 = ''0''"
  by code_simp

lemma repr_1: "repr (Suc 0) = ''1''"
  by code_simp

subsection \<open>Claims about the glyph-order unifier\<close>

text \<open>
  Claim C1, as amended. The merged glyph order has no duplicate identifier exactly when
  no input font's glyph order has one: the renaming \<open>(n, glyphName) \<mapsto> glyphName#n\<close> is
  injective (the decimal digits of \<open>n\<close> hold no \<open>#\<close>, so the last \<open>#\<close> of a renamed
  identifier is the appended one), and so two renamed identifiers are equal only when
  they come from equal identifiers of the same font. A font that lists an identifier
  twice is the one way to a duplicate; the unifier has no step that removes it.
\<close>

theorem mergeGlyphOrders_distinct:
  "distinct (snd (mergeGlyphOrders glyphOrders)) \<longleftrightarrow>
     (\<forall>glyphOrder \<in> set glyphOrders. distinct glyphOrder)"
  by (simp add: mergeGlyphOrders_eq distinct_mega)

text \<open>
  The theorem at two fonts, the first of which already has an identifier that ends in
  the suffix of the second.
\<close>

theorem mergeGlyphOrders_distinct_witness:
  "distinct [''a'', ''a#1''] \<and> distinct [''a''] \<and>
   distinct (snd (mergeGlyphOrders [[''a'', ''a#1''], [''a'']]))"
proof -
  have "\<forall>glyphOrder \<in> set [[''a'', ''a#1''], [''a'']]. distinct glyphOrder"
    by simp
  then have "distinct (snd (mergeGlyphOrders [[''a'', ''a#1''], [''a'']]))"
    by (rule mergeGlyphOrders_distinct [THEN iffD2])
  then show ?thesis by simp
qed

text \<open>
  Claim C1 as it is written fails at a single font whose glyph order lists \<open>a\<close> twice.
\<close>

theorem mergeGlyphOrders_duplicate_counterexample:
  "snd (mergeGlyphOrders [[''a'', ''a'']]) = [''a#0'', ''a#0'']
   \<and> \<not> distinct (snd (mergeGlyphOrders [[''a'', ''a'']]))"
  by (simp add: mergeGlyphOrders_eq renamed_fonts_def renamed_def repr_0)

text \<open>
  Claim C2. For glyph orders of lengths \<open>c\<^sub>0 \<dots> c\<^sub>N\<^sub>-\<^sub>1\<close> the unifier returns a
  global sequence of length \<open>\<Sum>c\<^sub>i\<close> that is the concatenation, in font order, of the
  per-font sequences after every identifier of font \<open>n\<close> got the suffix \<open>#\<close> followed by
  the decimal digits of \<open>n\<close>; the per-font sequences the caller passed in are left
  renamed in the same way.
\<close>

theorem mergeGlyphOrders_concat:
  "mergeGlyphOrders glyphOrders = (renamed_fonts glyphOrders, concat (renamed_fonts glyphOrders))
   \<and> length (snd (mergeGlyphOrders glyphOrders)) = sum_list (map length glyphOrders)
   \<and> length (fst (mergeGlyphOrders glyphOrders)) = length glyphOrders
   \<and> (\<forall>n < length glyphOrders.
        fst (mergeGlyphOrders glyphOrders) ! n =
          map (\<lambda>glyphName. glyphName @ ''#'' @ repr n) (glyphOrders ! n))"
proof -
  have "\<forall>n < length glyphOrders. renamed_fonts glyphOrders ! n =
          map (\<lambda>glyphName. glyphName @ ''#'' @ repr n) (glyphOrders ! n)"
    by (simp add: renamed_fonts_def nth_enumerate_eq renamed_def)
  moreover have "length (concat (renamed_fonts glyphOrders)) = sum_list (map length glyphOrders)"
    unfolding renamed_fonts_def by (rule length_concat_renamed)
  ultimately show ?thesis
    by (simp add: mergeGlyphOrders_eq renamed_fonts_def)
qed

theorem mergeGlyphOrders_concat_witness:
  "mergeGlyphOrders [[''a'', ''b''], [''a'']] =
     ([[''a#0'', ''b#0''], [''a#1'']], [''a#0'', ''b#0'', ''a#1''])
   \<and> length (snd (mergeGlyphOrders [[''a'', ''b''], [''a'']])) = 3"
  using mergeGlyphOrders_concat [of "[[''a'', ''b''], [''a'']]"]
  by (simp add: renamed_fonts_def renamed_def repr_0 repr_1)

subsection \<open>Dicts updated in source order\<close>

lemma fold_map_add_dom:
  "dom (fold (\<lambda>m acc. acc ++ m) ms init) = dom init \<union> (\<Union>m\<in>set ms. dom m)"
  by (induction ms arbitrary: init) auto

lemma fold_map_add_None:
  "(\<forall>m\<in>set ms. m k = None) \<Longrightarrow> fold (\<lambda>m acc. acc ++ m) ms init k = init k"
  by (induction ms arbitrary: init) (simp_all add: map_add_def)

lemma fold_map_add_latest:
  "i < length ms \<Longrightarrow> \<forall>j. i < j \<and> j < length ms \<longrightarrow> (ms ! j) k = None \<Longrightarrow> (ms ! i) k \<noteq> None \<Longrightarrow>
   fold (\<lambda>m acc. acc ++ m) ms init k = (ms ! i) k"
proof (induction ms arbitrary: init i)
  case Nil
  then show ?case by simp
next
  case (Cons m ms)
  show ?case
  proof (cases i)
    case 0
    have "\<forall>m'\<in>set ms. m' k = None"
    proof
      fix m' assume "m' \<in> set ms"
      then obtain j where "j < length ms" "ms ! j = m'" by (auto simp: in_set_conv_nth)
      with Cons.prems(2) 0 show "m' k = None" by (metis Suc_less_eq length_Cons nth_Cons_Suc zero_less_Suc)
    qed
    then have "fold (\<lambda>m acc. acc ++ m) ms (init ++ m) k = (init ++ m) k"
      by (rule fold_map_add_None)
    with Cons.prems(3) 0 show ?thesis by (auto simp: map_add_def split: option.splits)
  next
    case (Suc i')
    have "fold (\<lambda>m acc. acc ++ m) ms (init ++ m) k = (ms ! i') k"
    proof (rule Cons.IH)
      show "i' < length ms" using Cons.prems(1) Suc by simp
      show "\<forall>j. i' < j \<and> j < length ms \<longrightarrow> (ms ! j) k = None"
        using Cons.prems(2) Suc by (metis Suc_less_eq length_Cons nth_Cons_Suc)
      show "(ms ! i') k \<noteq> None" using Cons.prems(3) Suc by simp
    qed
    with Suc show ?thesis by simp
  qed
qed

lemma fold_metrics: "fold (\<lambda>t acc. acc ++ metrics t) ts init = fold (\<lambda>m acc. acc ++ m) (map metrics ts) init"
  by (simp add: fold_map comp_def)

subsection \<open>Claim about the metrics merger\<close>

text \<open>
  Claim C5. The key set of the merged \<^verbatim>\<open>metrics\<close> dict is the union of the key sets of
  the source tables, and the value of a key is the value in the last source table, in
  input order, that has the key.
\<close>

theorem mtx_merge_union:
  "dom (metrics (fst (snd (mtx_merge self m_tables)))) = (\<Union>t\<in>set m_tables. dom (metrics t))
   \<and> (\<forall>i k. i < length m_tables \<and> metrics (m_tables ! i) k \<noteq> None
           \<and> (\<forall>j. i < j \<and> j < length m_tables \<longrightarrow> metrics (m_tables ! j) k = None)
        \<longrightarrow> metrics (fst (snd (mtx_merge self m_tables))) k = metrics (m_tables ! i) k)"
proof -
  have "\<And>i k. i < length m_tables \<Longrightarrow> metrics (m_tables ! i) k \<noteq> None \<Longrightarrow>
      (\<forall>j. i < j \<and> j < length m_tables \<longrightarrow> metrics (m_tables ! j) k = None) \<Longrightarrow>
      fold (\<lambda>m acc. acc ++ m) (map metrics m_tables) Map.empty k = metrics (m_tables ! i) k"
  proof -
    fix i k
    assume i: "i < length m_tables" and k: "metrics (m_tables ! i) k \<noteq> None"
      and l: "\<forall>j. i < j \<and> j < length m_tables \<longrightarrow> metrics (m_tables ! j) k = None"
    have "fold (\<lambda>m acc. acc ++ m) (map metrics m_tables) Map.empty k = (map metrics m_tables ! i) k"
      using i k l by (intro fold_map_add_latest) simp_all
    then show "fold (\<lambda>m acc. acc ++ m) (map metrics m_tables) Map.empty k = metrics (m_tables ! i) k"
      using i by simp
  qed
  then show ?thesis
    by (simp add: mtx_merge_def fold_metrics fold_map_add_dom)
qed

theorem mtx_merge_union_witness:
  "dom (metrics (fst (snd (mtx_merge \<lparr>metrics = Map.empty\<rparr>
      [\<lparr>metrics = [''a#0'' \<mapsto> (500, 10), ''x'' \<mapsto> (1, 1)]\<rparr>,
       \<lparr>metrics = [''a#1'' \<mapsto> (600, 20), ''x'' \<mapsto> (2, 2)]\<rparr>]))))
     = {''a#0'', ''a#1'', ''x''}
   \<and> metrics (fst (snd (mtx_merge \<lparr>metrics = Map.empty\<rparr>
      [\<lparr>metrics = [''a#0'' \<mapsto> (500, 10), ''x'' \<mapsto> (1, 1)]\<rparr>,
       \<lparr>metrics = [''a#1'' \<mapsto> (600, 20), ''x'' \<mapsto> (2, 2)]\<rparr>]))) ''x''
     = Some (2, 2)
   \<and> metrics (fst (snd (mtx_merge \<lparr>metrics = Map.empty\<rparr>
      [\<lparr>metrics = [''a#0'' \<mapsto> (500, 10), ''x'' \<mapsto> (1, 1)]\<rparr>,
       \<lparr>metrics = [''a#1'' \<mapsto> (600, 20), ''x'' \<mapsto> (2, 2)]\<rparr>]))) ''a#0''
     = Some (500, 10)"
proof -
  let ?ts = "[\<lparr>metrics = [''a#0'' \<mapsto> (500::int, 10::int), ''x'' \<mapsto> (1, 1)]\<rparr>,
              \<lparr>metrics = [''a#1'' \<mapsto> (600, 20), ''x'' \<mapsto> (2, 2)]\<rparr>]"
  let ?out = "metrics (fst (snd (mtx_merge \<lparr>metrics = Map.empty\<rparr> ?ts)))"
  note t = mtx_merge_union [of "\<lparr>metrics = Map.empty\<rparr>" ?ts]
  from t have d: "dom ?out = {''a#0'', ''a#1'', ''x''}"
    by auto
  from t have "1 < length ?ts \<and> metrics (?ts ! 1) ''x'' \<noteq> None
           \<and> (\<forall>j. 1 < j \<and> j < length ?ts \<longrightarrow> metrics (?ts ! j) ''x'' = None)
        \<longrightarrow> ?out ''x'' = metrics (?ts ! 1) ''x''"
    by blast
  then have x: "?out ''x'' = Some (2, 2)"
    by simp
  from t have "0 < length ?ts \<and> metrics (?ts ! 0) ''a#0'' \<noteq> None
           \<and> (\<forall>j. 0 < j \<and> j < length ?ts \<longrightarrow> metrics (?ts ! j) ''a#0'' = None)
        \<longrightarrow> ?out ''a#0'' = metrics (?ts ! 0) ''a#0''"
    by blast
  moreover have "\<forall>j. 0 < j \<and> j < length ?ts \<longrightarrow> metrics (?ts ! j) ''a#0'' = None"
    by (auto simp: less_Suc_eq)
  ultimately have a: "?out ''a#0'' = Some (500, 10)"
    by simp
  from d x a show ?thesis by simp
qed

subsection \<open>Claims about the character-map merger\<close>

lemma fold_cmap: "fold (\<lambda>t acc. acc ++ cmap t) ts init = fold (\<lambda>m acc. acc ++ m) (map cmap ts) init"
  by (simp add: fold_map comp_def)

lemma cmap_merge_Inr:
  assumes "cmap_merge self m_tables = Inr (r, out, ts')"
  shows "list_all (\<lambda>t. format t \<in> set [4, 12]) (cmapTables m_tables)"
    and "cmapTables m_tables \<noteq> []"
    and "r = True" and "ts' = m_tables"
    and "out = self\<lparr>tableVersion := 0,
            tables := [\<lparr>format = Max (set (map format (cmapTables m_tables))),
                platformID = 3,
                platEncID = Max (set (map platEncID (cmapTables m_tables))),
                language = 0,
                cmap = fold (\<lambda>m acc. acc ++ m) (map cmap (cmapTables m_tables)) Map.empty\<rparr>],
            numSubTables := 1\<rparr>"
  using assms by (auto simp: cmap_merge_def Let_def fold_cmap split: if_splits)

lemma cmapTables_example:
  "cmapTables [cmap_A, cmap_B] =
     [\<lparr>format = 4, platformID = 3, platEncID = 1, language = 0,
        cmap = [97 \<mapsto> ''a#0'', 99 \<mapsto> ''c#0'']\<rparr>,
      \<lparr>format = 12, platformID = 3, platEncID = 10, language = 0,
        cmap = [98 \<mapsto> ''a#1'', 99 \<mapsto> ''c#1'']\<rparr>]"
  by (simp add: cmapTables_def cmap_A_def cmap_B_def)

lemma cmap_merge_example:
  "\<exists>out. cmap_merge \<lparr>tableVersion = 0, tables = [], numSubTables = 0\<rparr> [cmap_A, cmap_B] =
     Inr (True, out, [cmap_A, cmap_B])"
  by (simp add: cmap_merge_def cmapTables_example Let_def)

text \<open>
  Claim C4. When the character-map merger succeeds, the merged table has exactly one
  subtable; its format is the greatest format of the selected subtables; a code point
  that exactly one selected subtable maps goes to that subtable's glyph, a code point
  that several map goes to the glyph of the last of them in input order, and a code
  point that none maps is not mapped.
\<close>

theorem cmap_merge_union:
  assumes "cmap_merge self m_tables = Inr (r, out, ts')"
  shows "\<exists>cmapTable. tables out = [cmapTable] \<and> numSubTables out = 1
     \<and> format cmapTable = Max (set (map format (cmapTables m_tables)))
     \<and> format cmapTable \<in> format ` set (cmapTables m_tables)
     \<and> (\<forall>i codepoint. i < length (cmapTables m_tables)
            \<and> cmap (cmapTables m_tables ! i) codepoint \<noteq> None
            \<and> (\<forall>j. j < length (cmapTables m_tables) \<and> j \<noteq> i
                   \<longrightarrow> cmap (cmapTables m_tables ! j) codepoint = None)
          \<longrightarrow> cmap cmapTable codepoint = cmap (cmapTables m_tables ! i) codepoint)
     \<and> (\<forall>i codepoint. i < length (cmapTables m_tables)
            \<and> cmap (cmapTables m_tables ! i) codepoint \<noteq> None
            \<and> (\<forall>j. i < j \<and> j < length (cmapTables m_tables)
                   \<longrightarrow> cmap (cmapTables m_tables ! j) codepoint = None)
          \<longrightarrow> cmap cmapTable codepoint = cmap (cmapTables m_tables ! i) codepoint)
     \<and> (\<forall>codepoint. (\<forall>t \<in> set (cmapTables m_tables). cmap t codepoint = None)
          \<longrightarrow> cmap cmapTable codepoint = None)"
proof -
  let ?sel = "cmapTables m_tables"
  let ?c = "fold (\<lambda>m acc. acc ++ m) (map cmap ?sel) Map.empty"
  note o = cmap_merge_Inr[OF assms]
  have ne: "set (map format ?sel) \<noteq> {}" using o(2) by simp
  have m: "Max (set (map format ?sel)) \<in> format ` set ?sel"
    using Max_in[OF _ ne] by simp
  have latest: "?c k = cmap (?sel ! i) k"
    if "i < length ?sel" "cmap (?sel ! i) k \<noteq> None"
       "\<forall>j. i < j \<and> j < length ?sel \<longrightarrow> cmap (?sel ! j) k = None" for i k
  proof -
    have "?c k = (map cmap ?sel ! i) k"
      using that by (intro fold_map_add_latest) simp_all
    then show ?thesis using that(1) by simp
  qed
  have none: "?c k = None" if "\<forall>t \<in> set ?sel. cmap t k = None" for k
    using that fold_map_add_None[of "map cmap ?sel" k Map.empty] by simp
  show ?thesis
    using m latest none by (simp add: o(5))
qed

theorem cmap_merge_union_witness:
  "\<exists>out cmapTable.
     cmap_merge \<lparr>tableVersion = 0, tables = [], numSubTables = 0\<rparr> [cmap_A, cmap_B] =
       Inr (True, out, [cmap_A, cmap_B])
     \<and> tables out = [cmapTable] \<and> numSubTables out = 1 \<and> format cmapTable = 12
     \<and> cmap cmapTable 97 = Some ''a#0'' \<and> cmap cmapTable 98 = Some ''a#1''
     \<and> cmap cmapTable 99 = Some ''c#1'' \<and> cmap cmapTable 100 = None"
proof -
  let ?ts = "[cmap_A, cmap_B]"
  from cmap_merge_example obtain out where
    o: "cmap_merge \<lparr>tableVersion = 0, tables = [], numSubTables = 0\<rparr> ?ts = Inr (True, out, ?ts)"
    by blast
  from cmap_merge_union[OF o] obtain c where c: "tables out = [c]" "numSubTables out = 1"
     "format c = Max (set (map format (cmapTables ?ts)))"
     "\<forall>i codepoint. i < length (cmapTables ?ts)
            \<and> cmap (cmapTables ?ts ! i) codepoint \<noteq> None
            \<and> (\<forall>j. j < length (cmapTables ?ts) \<and> j \<noteq> i
                   \<longrightarrow> cmap (cmapTables ?ts ! j) codepoint = None)
          \<longrightarrow> cmap c codepoint = cmap (cmapTables ?ts ! i) codepoint"
     "\<forall>i codepoint. i < length (cmapTables ?ts)
            \<and> cmap (cmapTables ?ts ! i) codepoint \<noteq> None
            \<and> (\<forall>j. i < j \<and> j < length (cmapTables ?ts)
                   \<longrightarrow> cmap (cmapTables ?ts ! j) codepoint = None)
          \<longrightarrow> cmap c codepoint = cmap (cmapTables ?ts ! i) codepoint"
     "\<forall>codepoint. (\<forall>t \<in> set (cmapTables ?ts). cmap t codepoint = None)
          \<longrightarrow> cmap c codepoint = None"
    by blast
  note sel = cmapTables_example
  have f: "format c = 12" using c(3) by (simp add: sel)
  have "\<forall>j. j < length (cmapTables ?ts) \<and> j \<noteq> 0 \<longrightarrow> cmap (cmapTables ?ts ! j) 97 = None"
    by (auto simp: sel less_Suc_eq)
  then have "cmap c 97 = cmap (cmapTables ?ts ! 0) 97"
    using c(4)[rule_format, of 0 97] by (simp add: sel)
  then have c97: "cmap c 97 = Some ''a#0''" by (simp add: sel)
  have "\<forall>j. j < length (cmapTables ?ts) \<and> j \<noteq> 1 \<longrightarrow> cmap (cmapTables ?ts ! j) 98 = None"
    by (auto simp: sel less_Suc_eq)
  then have "cmap c 98 = cmap (cmapTables ?ts ! 1) 98"
    using c(4)[rule_format, of 1 98] by (simp add: sel)
  then have c98: "cmap c 98 = Some ''a#1''" by (simp add: sel)
  have "cmap c 99 = cmap (cmapTables ?ts ! 1) 99"
    using c(5)[rule_format, of 1 99] by (simp add: sel)
  then have c99: "cmap c 99 = Some ''c#1''" by (simp add: sel)
  have "\<forall>t \<in> set (cmapTables ?ts). cmap t 100 = None"
    by (simp add: sel)
  with c(6) have c100: "cmap c 100 = None"
    by blast
  from o c(1,2) f c97 c98 c99 c100 show ?thesis by blast
qed

text \<open>
  Claim C9. When the character-map merger succeeds, its one subtable has platformID 3,
  language 0 and the greatest platEncID of the selected subtables.
\<close>

theorem cmap_merge_header:
  assumes "cmap_merge self m_tables = Inr (r, out, ts')"
  shows "\<exists>cmapTable. tables out = [cmapTable]
     \<and> platformID cmapTable = 3 \<and> language cmapTable = 0
     \<and> platEncID cmapTable = Max (set (map platEncID (cmapTables m_tables)))
     \<and> platEncID cmapTable \<in> platEncID ` set (cmapTables m_tables)
     \<and> (\<forall>t \<in> set (cmapTables m_tables). platEncID t \<le> platEncID cmapTable)"
proof -
  let ?sel = "cmapTables m_tables"
  note o = cmap_merge_Inr[OF assms]
  have ne: "set (map platEncID ?sel) \<noteq> {}" using o(2) by simp
  have m: "Max (set (map platEncID ?sel)) \<in> platEncID ` set ?sel"
    using Max_in[OF _ ne] by simp
  have "\<forall>t \<in> set ?sel. platEncID t \<le> Max (set (map platEncID ?sel))"
    by simp
  with m show ?thesis by (simp add: o(5))
qed

theorem cmap_merge_header_witness:
  "\<exists>out cmapTable.
     cmap_merge \<lparr>tableVersion = 0, tables = [], numSubTables = 0\<rparr> [cmap_A, cmap_B] =
       Inr (True, out, [cmap_A, cmap_B])
     \<and> tables out = [cmapTable]
     \<and> platformID cmapTable = 3 \<and> language cmapTable = 0 \<and> platEncID cmapTable = 10"
proof -
  let ?ts = "[cmap_A, cmap_B]"
  from cmap_merge_example obtain out where
    o: "cmap_merge \<lparr>tableVersion = 0, tables = [], numSubTables = 0\<rparr> ?ts = Inr (True, out, ?ts)"
    by blast
  from cmap_merge_header[OF o] obtain c where c: "tables out = [c]"
     "platformID c = 3" "language c = 0"
     "platEncID c = Max (set (map platEncID (cmapTables ?ts)))"
    by blast
  have "platEncID c = 10" using c(4) by (simp add: cmapTables_example)
  with o c(1,2,3) show ?thesis by blast
qed

subsection \<open>Claim about the glyph-definition merger\<close>

lemma LigCaretList_loop_append:
  "LigCaretList_loop (xs @ ys) acc = LigCaretList_loop ys (LigCaretList_loop xs acc)"
  by (induction xs acc rule: LigCaretList_loop.induct) (simp_all split: option.splits)

lemma LigCaretList_loop_None:
  "\<forall>t\<in>set xs. LigCaretList (table t) = None \<Longrightarrow> LigCaretList_loop xs acc = acc"
  by (induction xs acc rule: LigCaretList_loop.induct) simp_all

lemma AttachList_loop_append:
  "AttachList_loop (xs @ ys) acc = AttachList_loop ys (AttachList_loop xs acc)"
  by (induction xs acc rule: AttachList_loop.induct) (simp_all split: option.splits)

lemma AttachList_loop_None:
  "\<forall>t\<in>set xs. AttachList (table t) = None \<Longrightarrow> AttachList_loop xs acc = acc"
  by (induction xs acc rule: AttachList_loop.induct) simp_all

lemma MarkAttachClassDef_loop_append:
  "MarkAttachClassDef_loop (xs @ ys) acc = MarkAttachClassDef_loop ys (MarkAttachClassDef_loop xs acc)"
  by (induction xs acc rule: MarkAttachClassDef_loop.induct) (simp_all split: option.splits)

lemma MarkAttachClassDef_loop_None:
  "\<forall>t\<in>set xs. MarkAttachClassDef (table t) = None \<Longrightarrow> MarkAttachClassDef_loop xs acc = acc"
  by (induction xs acc rule: MarkAttachClassDef_loop.induct) simp_all

lemma GlyphClassDef_loop_append:
  "GlyphClassDef_loop (xs @ ys) acc = GlyphClassDef_loop ys (GlyphClassDef_loop xs acc)"
  by (induction xs acc rule: GlyphClassDef_loop.induct) (simp_all split: option.splits)

lemma GlyphClassDef_loop_None:
  "\<forall>t\<in>set xs. GlyphClassDef (table t) = None \<Longrightarrow> GlyphClassDef_loop xs acc = acc"
  by (induction xs acc rule: GlyphClassDef_loop.induct) simp_all

text \<open>A list with one distinguished position: the elements before and after it.\<close>

lemma only_at_split:
  assumes "i < length xs" "\<forall>j. j < length xs \<and> j \<noteq> i \<longrightarrow> P (xs ! j)"
  shows "xs = take i xs @ xs ! i # drop (Suc i) xs"
    and "\<forall>x\<in>set (take i xs). P x" and "\<forall>x\<in>set (drop (Suc i) xs). P x"
proof -
  show "xs = take i xs @ xs ! i # drop (Suc i) xs"
    using assms(1) by (simp add: id_take_nth_drop[symmetric])
  show "\<forall>x\<in>set (take i xs). P x"
  proof
    fix x assume "x \<in> set (take i xs)"
    then obtain j where "j < length (take i xs)" "take i xs ! j = x"
      by (auto simp: in_set_conv_nth)
    with assms show "P x" by auto
  qed
  show "\<forall>x\<in>set (drop (Suc i) xs). P x"
  proof
    fix x assume "x \<in> set (drop (Suc i) xs)"
    then obtain j where j: "j < length (drop (Suc i) xs)" "drop (Suc i) xs ! j = x"
      by (auto simp: in_set_conv_nth)
    then have "Suc i + j < length xs" "Suc i + j \<noteq> i" "xs ! (Suc i + j) = x" by auto
    with assms(2) show "P x" by blast
  qed
qed

lemma LigCaretList_loop_only:
  assumes "i < length ts" "LigCaretList (table (ts ! i)) = Some l"
    "\<forall>j. j < length ts \<and> j \<noteq> i \<longrightarrow> LigCaretList (table (ts ! j)) = None"
  shows "LigCaretList_loop ts ([], []) = (Coverage_glyphs (LigCaretList_Coverage l), LigGlyph l)"
proof -
  note s = only_at_split[where P = "\<lambda>t. LigCaretList (table t) = None", OF assms(1) assms(3)]
  have "LigCaretList_loop ts ([], []) =
      LigCaretList_loop (take i ts @ ts ! i # drop (Suc i) ts) ([], [])"
    using s(1) by simp
  also have "\<dots> = (Coverage_glyphs (LigCaretList_Coverage l), LigGlyph l)"
    using s(2,3) assms(2)
    by (simp add: LigCaretList_loop_append LigCaretList_loop_None)
  finally show ?thesis .
qed

lemma AttachList_loop_only:
  assumes "i < length ts" "AttachList (table (ts ! i)) = Some l"
    "\<forall>j. j < length ts \<and> j \<noteq> i \<longrightarrow> AttachList (table (ts ! j)) = None"
  shows "AttachList_loop ts ([], []) = (Coverage_glyphs (AttachList_Coverage l), AttachPoint l)"
proof -
  note s = only_at_split[where P = "\<lambda>t. AttachList (table t) = None", OF assms(1) assms(3)]
  have "AttachList_loop ts ([], []) =
      AttachList_loop (take i ts @ ts ! i # drop (Suc i) ts) ([], [])"
    using s(1) by simp
  also have "\<dots> = (Coverage_glyphs (AttachList_Coverage l), AttachPoint l)"
    using s(2,3) assms(2)
    by (simp add: AttachList_loop_append AttachList_loop_None)
  finally show ?thesis .
qed

lemma MarkAttachClassDef_loop_only:
  assumes "i < length ts" "MarkAttachClassDef (table (ts ! i)) = Some c"
    "\<forall>j. j < length ts \<and> j \<noteq> i \<longrightarrow> MarkAttachClassDef (table (ts ! j)) = None"
  shows "MarkAttachClassDef_loop ts Map.empty = classDefs c"
proof -
  note s = only_at_split[where P = "\<lambda>t. MarkAttachClassDef (table t) = None", OF assms(1) assms(3)]
  have "MarkAttachClassDef_loop ts Map.empty =
      MarkAttachClassDef_loop (take i ts @ ts ! i # drop (Suc i) ts) Map.empty"
    using s(1) by simp
  also have "\<dots> = classDefs c"
    using s(2,3) assms(2)
    by (simp add: MarkAttachClassDef_loop_append MarkAttachClassDef_loop_None)
  finally show ?thesis .
qed

lemma GlyphClassDef_loop_only:
  assumes "i < length ts" "GlyphClassDef (table (ts ! i)) = Some c"
    "\<forall>j. j < length ts \<and> j \<noteq> i \<longrightarrow> GlyphClassDef (table (ts ! j)) = None"
  shows "GlyphClassDef_loop ts Map.empty = classDefs c"
proof -
  note s = only_at_split[where P = "\<lambda>t. GlyphClassDef (table t) = None", OF assms(1) assms(3)]
  have "GlyphClassDef_loop ts Map.empty =
      GlyphClassDef_loop (take i ts @ ts ! i # drop (Suc i) ts) Map.empty"
    using s(1) by simp
  also have "\<dots> = classDefs c"
    using s(2,3) assms(2)
    by (simp add: GlyphClassDef_loop_append GlyphClassDef_loop_None)
  finally show ?thesis .
qed

lemma GDEF_merge_fields:
  "LigCaretList (table (fst (snd (GDEF_merge self ts)))) =
     (if list_ex (\<lambda>t. LigCaretList (table t) \<noteq> None) ts then
        Some \<lparr>LigCaretList_Coverage = \<lparr>Coverage_glyphs = fst (LigCaretList_loop ts ([], []))\<rparr>,
              LigGlyph = snd (LigCaretList_loop ts ([], [])),
              LigCaretList_GlyphCount = int (length (snd (LigCaretList_loop ts ([], []))))\<rparr>
      else None)"
  "MarkAttachClassDef (table (fst (snd (GDEF_merge self ts)))) =
     (if list_ex (\<lambda>t. MarkAttachClassDef (table t) \<noteq> None) ts then
        Some \<lparr>classDefs = MarkAttachClassDef_loop ts Map.empty\<rparr> else None)"
  "GlyphClassDef (table (fst (snd (GDEF_merge self ts)))) =
     (if list_ex (\<lambda>t. GlyphClassDef (table t) \<noteq> None) ts then
        Some \<lparr>classDefs = GlyphClassDef_loop ts Map.empty\<rparr> else None)"
  "AttachList (table (fst (snd (GDEF_merge self ts)))) =
     (if list_ex (\<lambda>t. AttachList (table t) \<noteq> None) ts then
        Some \<lparr>AttachList_Coverage = \<lparr>Coverage_glyphs = fst (AttachList_loop ts ([], []))\<rparr>,
              AttachPoint = snd (AttachList_loop ts ([], [])),
              AttachList_GlyphCount = int (length (snd (AttachList_loop ts ([], []))))\<rparr>
      else None)"
  by (simp_all add: GDEF_merge_def Let_def split: prod.splits)

text \<open>
  Claim C6. Each of the four optional substructures is present in the merged table
  exactly when a source table has it, so it is \<^verbatim>\<open>None\<close> when no source has it. When
  exactly one source has it, the merged substructure has the contents of that
  source's: the same coverage glyphs and records, with the record count set to the
  number of records, or the same class definitions.
\<close>

theorem GDEF_merge_optional:
  assumes "GDEF_merge self ts = (r, out, ts')"
  shows
   "(LigCaretList (table out) \<noteq> None \<longleftrightarrow> (\<exists>t\<in>set ts. LigCaretList (table t) \<noteq> None))
  \<and> (MarkAttachClassDef (table out) \<noteq> None \<longleftrightarrow> (\<exists>t\<in>set ts. MarkAttachClassDef (table t) \<noteq> None))
  \<and> (GlyphClassDef (table out) \<noteq> None \<longleftrightarrow> (\<exists>t\<in>set ts. GlyphClassDef (table t) \<noteq> None))
  \<and> (AttachList (table out) \<noteq> None \<longleftrightarrow> (\<exists>t\<in>set ts. AttachList (table t) \<noteq> None))
  \<and> (\<forall>i l. i < length ts \<and> LigCaretList (table (ts ! i)) = Some l
         \<and> (\<forall>j. j < length ts \<and> j \<noteq> i \<longrightarrow> LigCaretList (table (ts ! j)) = None)
       \<longrightarrow> LigCaretList (table out) =
             Some (l\<lparr>LigCaretList_GlyphCount := int (length (LigGlyph l))\<rparr>))
  \<and> (\<forall>i c. i < length ts \<and> MarkAttachClassDef (table (ts ! i)) = Some c
         \<and> (\<forall>j. j < length ts \<and> j \<noteq> i \<longrightarrow> MarkAttachClassDef (table (ts ! j)) = None)
       \<longrightarrow> MarkAttachClassDef (table out) = Some c)
  \<and> (\<forall>i c. i < length ts \<and> GlyphClassDef (table (ts ! i)) = Some c
         \<and> (\<forall>j. j < length ts \<and> j \<noteq> i \<longrightarrow> GlyphClassDef (table (ts ! j)) = None)
       \<longrightarrow> GlyphClassDef (table out) = Some c)
  \<and> (\<forall>i l. i < length ts \<and> AttachList (table (ts ! i)) = Some l
         \<and> (\<forall>j. j < length ts \<and> j \<noteq> i \<longrightarrow> AttachList (table (ts ! j)) = None)
       \<longrightarrow> AttachList (table out) =
             Some (l\<lparr>AttachList_GlyphCount := int (length (AttachPoint l))\<rparr>))"
proof -
  have out: "out = fst (snd (GDEF_merge self ts))" using assms by simp
  have p1: "LigCaretList (table out) \<noteq> None \<longleftrightarrow> (\<exists>t\<in>set ts. LigCaretList (table t) \<noteq> None)"
    by (auto simp: out GDEF_merge_fields(1) list_ex_iff)
  have p2: "MarkAttachClassDef (table out) \<noteq> None \<longleftrightarrow> (\<exists>t\<in>set ts. MarkAttachClassDef (table t) \<noteq> None)"
    by (auto simp: out GDEF_merge_fields(2) list_ex_iff)
  have p3: "GlyphClassDef (table out) \<noteq> None \<longleftrightarrow> (\<exists>t\<in>set ts. GlyphClassDef (table t) \<noteq> None)"
    by (auto simp: out GDEF_merge_fields(3) list_ex_iff)
  have p4: "AttachList (table out) \<noteq> None \<longleftrightarrow> (\<exists>t\<in>set ts. AttachList (table t) \<noteq> None)"
    by (auto simp: out GDEF_merge_fields(4) list_ex_iff)
  have q1: "LigCaretList (table out) = Some (l\<lparr>LigCaretList_GlyphCount := int (length (LigGlyph l))\<rparr>)"
    if "i < length ts" "LigCaretList (table (ts ! i)) = Some l"
       "\<forall>j. j < length ts \<and> j \<noteq> i \<longrightarrow> LigCaretList (table (ts ! j)) = None" for i l
  proof -
    have "list_ex (\<lambda>t. LigCaretList (table t) \<noteq> None) ts"
      using that(1,2) by (auto simp: list_ex_iff intro!: bexI[of _ "ts ! i"])
    then show ?thesis
      by (simp add: out GDEF_merge_fields(1) LigCaretList_loop_only[OF that])
  qed
  have q2: "MarkAttachClassDef (table out) = Some c"
    if "i < length ts" "MarkAttachClassDef (table (ts ! i)) = Some c"
       "\<forall>j. j < length ts \<and> j \<noteq> i \<longrightarrow> MarkAttachClassDef (table (ts ! j)) = None" for i c
  proof -
    have "list_ex (\<lambda>t. MarkAttachClassDef (table t) \<noteq> None) ts"
      using that(1,2) by (auto simp: list_ex_iff intro!: bexI[of _ "ts ! i"])
    then show ?thesis
      by (simp add: out GDEF_merge_fields(2) MarkAttachClassDef_loop_only[OF that])
  qed
  have q3: "GlyphClassDef (table out) = Some c"
    if "i < length ts" "GlyphClassDef (table (ts ! i)) = Some c"
       "\<forall>j. j < length ts \<and> j \<noteq> i \<longrightarrow> GlyphClassDef (table (ts ! j)) = None" for i c
  proof -
    have "list_ex (\<lambda>t. GlyphClassDef (table t) \<noteq> None) ts"
      using that(1,2) by (auto simp: list_ex_iff intro!: bexI[of _ "ts ! i"])
    then show ?thesis
      by (simp add: out GDEF_merge_fields(3) GlyphClassDef_loop_only[OF that])
  qed
  have q4: "AttachList (table out) = Some (l\<lparr>AttachList_GlyphCount := int (length (AttachPoint l))\<rparr>)"
    if "i < length ts" "AttachList (table (ts ! i)) = Some l"
       "\<forall>j. j < length ts \<and> j \<noteq> i \<longrightarrow> AttachList (table (ts ! j)) = None" for i l
  proof -
    have "list_ex (\<lambda>t. AttachList (table t) \<noteq> None) ts"
      using that(1,2) by (auto simp: list_ex_iff intro!: bexI[of _ "ts ! i"])
    then show ?thesis
      by (simp add: out GDEF_merge_fields(4) AttachList_loop_only[OF that])
  qed
  show ?thesis
  proof (intro conjI allI impI)
    fix i and l :: "'a LigCaretList_t"
    assume "i < length ts \<and> LigCaretList (table (ts ! i)) = Some l
         \<and> (\<forall>j. j < length ts \<and> j \<noteq> i \<longrightarrow> LigCaretList (table (ts ! j)) = None)"
    then show "LigCaretList (table out) =
             Some (l\<lparr>LigCaretList_GlyphCount := int (length (LigGlyph l))\<rparr>)"
      by (elim conjE) (rule q1)
  next
    fix i c
    assume "i < length ts \<and> MarkAttachClassDef (table (ts ! i)) = Some c
         \<and> (\<forall>j. j < length ts \<and> j \<noteq> i \<longrightarrow> MarkAttachClassDef (table (ts ! j)) = None)"
    then show "MarkAttachClassDef (table out) = Some c"
      by (elim conjE) (rule q2)
  next
    fix i c
    assume "i < length ts \<and> GlyphClassDef (table (ts ! i)) = Some c
         \<and> (\<forall>j. j < length ts \<and> j \<noteq> i \<longrightarrow> GlyphClassDef (table (ts ! j)) = None)"
    then show "GlyphClassDef (table out) = Some c"
      by (elim conjE) (rule q3)
  next
    fix i and l :: "'b AttachList_t"
    assume "i < length ts \<and> AttachList (table (ts ! i)) = Some l
         \<and> (\<forall>j. j < length ts \<and> j \<noteq> i \<longrightarrow> AttachList (table (ts ! j)) = None)"
    then show "AttachList (table out) =
             Some (l\<lparr>AttachList_GlyphCount := int (length (AttachPoint l))\<rparr>)"
      by (elim conjE) (rule q4)
  qed (rule p1 p2 p3 p4)+
qed

theorem GDEF_merge_optional_witness:
  "\<exists>out. GDEF_merge gdef_B [gdef_A, gdef_B] = (True, out, [gdef_A, gdef_B])
     \<and> LigCaretList (table out) = LigCaretList (table gdef_A)
     \<and> MarkAttachClassDef (table out) = None
     \<and> GlyphClassDef (table out) \<noteq> None
     \<and> AttachList (table out) = None"
proof -
  let ?ts = "[gdef_A, gdef_B]"
  obtain out where o: "GDEF_merge gdef_B ?ts = (True, out, ?ts)"
    by (simp add: GDEF_merge_def)
  note t = GDEF_merge_optional[OF o]
  have m: "\<not> (\<exists>t\<in>set ?ts. MarkAttachClassDef (table t) \<noteq> None)"
    by (simp add: gdef_A_def gdef_B_def)
  have a: "\<not> (\<exists>t\<in>set ?ts. AttachList (table t) \<noteq> None)"
    by (simp add: gdef_A_def gdef_B_def)
  have g: "\<exists>t\<in>set ?ts. GlyphClassDef (table t) \<noteq> None"
    by (simp add: gdef_A_def gdef_B_def)
  obtain la where la: "LigCaretList (table gdef_A) = Some la"
     "la\<lparr>LigCaretList_GlyphCount := int (length (LigGlyph la))\<rparr> = la"
    by (simp add: gdef_A_def)
  have l: "0 < length ?ts \<and> LigCaretList (table (?ts ! 0)) = Some la
      \<and> (\<forall>j. j < length ?ts \<and> j \<noteq> 0 \<longrightarrow> LigCaretList (table (?ts ! j)) = None)"
    using la(1) by (auto simp: gdef_B_def less_Suc_eq)
  from t have "0 < length ?ts \<and> LigCaretList (table (?ts ! 0)) = Some la
      \<and> (\<forall>j. j < length ?ts \<and> j \<noteq> 0 \<longrightarrow> LigCaretList (table (?ts ! j)) = None)
      \<longrightarrow> LigCaretList (table out) = Some (la\<lparr>LigCaretList_GlyphCount := int (length (LigGlyph la))\<rparr>)"
    by blast
  with l la have r1: "LigCaretList (table out) = LigCaretList (table gdef_A)" by simp
  from t m have r2: "MarkAttachClassDef (table out) = None" by blast
  from t g have r3: "GlyphClassDef (table out) \<noteq> None" by blast
  from t a have r4: "AttachList (table out) = None" by blast
  from o r1 r2 r3 r4 show ?thesis by blast
qed

subsection \<open>Claim about the combinator \<open>equal\<close>\<close>

lemma equal_py_Cons:
  "equal_py (x # t) = (if \<forall>item\<in>set t. item = x then Inr x else Inl AssertionError)"
  by (simp add: list_all_iff)

text \<open>
  Claim C3. On a non-empty list of field values \<^verbatim>\<open>equal\<close> returns the common value when
  all values are equal, and raises AssertionError (the PolicyViolation of the
  specification) when two values differ. The generic field merger calls it on the
  values of a field whose entry in \<^verbatim>\<open>logic\<close> is \<^verbatim>\<open>equal\<close>: the error ends the merge, the
  value is set on the merged table.
\<close>

theorem equal_py_all_or_fail:
  assumes "lst \<noteq> []"
  shows "((\<forall>x\<in>set lst. x = v) \<longrightarrow> equal_py lst = Inr v)
     \<and> ((\<exists>x\<in>set lst. \<exists>y\<in>set lst. x \<noteq> y) \<longrightarrow> equal_py lst = Inl AssertionError)
     \<and> call now C_equal vs = equal_py vs
     \<and> (lookup_logic logic key = Inr C_equal \<and> getattrs m_tables key = Inr vs \<longrightarrow>
          mergeKeys_loop now logic m_tables (key # keys) return_table =
            (case equal_py vs of
               Inl e \<Rightarrow> Inl e
             | Inr key_value \<Rightarrow>
                 mergeKeys_loop now logic m_tables keys (setattr return_table key key_value)))"
proof -
  obtain x t where l: "lst = x # t" using assms by (cases lst) auto
  have a: "(\<forall>x\<in>set lst. x = v) \<longrightarrow> equal_py lst = Inr v"
    unfolding l equal_py_Cons by auto
  have b: "(\<exists>x\<in>set lst. \<exists>y\<in>set lst. x \<noteq> y) \<longrightarrow> equal_py lst = Inl AssertionError"
    unfolding l equal_py_Cons by auto
  have c: "call now C_equal vs = equal_py vs" by simp
  have d: "lookup_logic logic key = Inr C_equal \<and> getattrs m_tables key = Inr vs \<longrightarrow>
          mergeKeys_loop now logic m_tables (key # keys) return_table =
            (case equal_py vs of
               Inl e \<Rightarrow> Inl e
             | Inr key_value \<Rightarrow>
                 mergeKeys_loop now logic m_tables keys (setattr return_table key key_value))"
    by simp
  from a b c d show ?thesis by (intro conjI)
qed

theorem equal_py_all_or_fail_witness:
  "equal_py [IntV 1000, IntV 1000, IntV 1000] = Inr (IntV 1000)
   \<and> equal_py [IntV 1000, IntV 2048] = Inl AssertionError"
proof -
  have "[IntV 1000, IntV 1000, IntV 1000] \<noteq> []" by simp
  from equal_py_all_or_fail[OF this, of "IntV 1000"]
  have "(\<forall>x\<in>set [IntV 1000, IntV 1000, IntV 1000]. x = IntV 1000)
          \<longrightarrow> equal_py [IntV 1000, IntV 1000, IntV 1000] = Inr (IntV 1000)"
    by (rule conjunct1)
  then have a: "equal_py [IntV 1000, IntV 1000, IntV 1000] = Inr (IntV 1000)" by simp
  have "[IntV 1000, IntV 2048] \<noteq> []" by simp
  from equal_py_all_or_fail[OF this]
  have "(\<exists>x\<in>set [IntV 1000, IntV 2048]. \<exists>y\<in>set [IntV 1000, IntV 2048]. x \<noteq> y)
          \<longrightarrow> equal_py [IntV 1000, IntV 2048] = Inl AssertionError"
    by (rule conjunct2[THEN conjunct1])
  then have b: "equal_py [IntV 1000, IntV 2048] = Inl AssertionError" by simp
  from a b show ?thesis by (rule conjI)
qed

subsection \<open>Claim about the wildcard entries\<close>

lemma lookup_logic_KeyError:
  "lookup_logic logic key = Inl e \<longleftrightarrow> e = KeyError \<and> map_of logic key = None \<and> map_of logic ''*'' = None"
  by (auto simp: lookup_logic_def split: option.splits)

lemma map_of_tableTag:
  "map_of (AList.update ''tableTag'' C_equal logic) = (map_of logic)(''tableTag'' \<mapsto> C_equal)"
  by (rule AList.update_conv')

lemma wildcard_lookup:
  "map_of logic ''*'' \<noteq> None \<Longrightarrow> lookup_logic (AList.update ''tableTag'' C_equal logic) key \<noteq> Inl e"
  by (simp add: lookup_logic_KeyError map_of_tableTag)

lemma getattrs_error: "getattrs ts key = Inl e \<Longrightarrow> e = AttributeError"
  by (induction ts arbitrary: e) (auto simp: getattr_def split: option.splits sum.splits)

lemma reduce_error:
  "reduce f acc lst = Inl e \<Longrightarrow> \<exists>a x. f a x = Inl e"
  by (induction lst arbitrary: acc) (auto split: sum.splits)

lemma or_py_error: "or_py a b = Inl e \<Longrightarrow> e = TypeError"
  by (cases "(a, b)" rule: or_py.cases) auto

lemma add_py_error: "add_py a b = Inl e \<Longrightarrow> e = TypeError"
  by (cases "(a, b)" rule: add_py.cases) auto

lemma greater_py_error: "greater_py a b = Inl e \<Longrightarrow> e = TypeError"
  by (cases "(a, b)" rule: greater_py.cases) auto

lemma less_py_error: "less_py a b = Inl e \<Longrightarrow> e = TypeError"
  by (cases "(a, b)" rule: less_py.cases) auto

lemma call_error: "call now c lst = Inl e \<Longrightarrow> e \<noteq> KeyError"
proof (cases c)
  case C_max
  assume "call now c lst = Inl e"
  with C_max show ?thesis
    by (cases lst) (auto dest!: reduce_error greater_py_error)
next
  case C_min
  assume "call now c lst = Inl e"
  with C_min show ?thesis
    by (cases lst) (auto dest!: reduce_error less_py_error)
next
  case C_sum
  assume "call now c lst = Inl e"
  with C_sum show ?thesis
    by (auto simp: sum_py_def dest!: reduce_error add_py_error)
next
  case C_equal
  assume "call now c lst = Inl e"
  with C_equal show ?thesis by (cases lst) (auto split: if_splits)
next
  case C_first
  assume "call now c lst = Inl e"
  with C_first show ?thesis by (cases lst) auto
next
  case C_recalculate
  assume "call now c lst = Inl e"
  with C_recalculate show ?thesis by (cases lst) (auto simp: recalculate_def)
next
  case C_current_time
  assume "call now c lst = Inl e"
  with C_current_time show ?thesis by (simp add: current_time_def)
next
  case C_bitwise_or
  assume "call now c lst = Inl e"
  with C_bitwise_or show ?thesis
    by (cases lst) (auto dest!: reduce_error or_py_error)
next
  case C_ignore
  assume "call now c lst = Inl e"
  with C_ignore show ?thesis by (simp add: ignore_def)
next
  case (C_lambda k)
  assume "call now c lst = Inl e"
  with C_lambda show ?thesis by simp
qed

lemma mergeKeys_loop_KeyError:
  "mergeKeys_loop now logic ts keys rt = Inl KeyError \<Longrightarrow>
   \<exists>key\<in>set keys. lookup_logic logic key = Inl KeyError"
proof (induction keys arbitrary: rt)
  case Nil
  then show ?case by simp
next
  case (Cons key keys)
  show ?case
  proof (cases "lookup_logic logic key")
    case (Inl e)
    then show ?thesis by (simp add: lookup_logic_KeyError)
  next
    case (Inr c)
    show ?thesis
    proof (cases "c = C_ignore")
      case True
      with Cons.prems Inr have "mergeKeys_loop now logic ts keys rt = Inl KeyError" by simp
      from Cons.IH[OF this] show ?thesis by simp
    next
      case False
      show ?thesis
      proof (cases "getattrs ts key")
        case (Inl e)
        with Cons.prems Inr False getattrs_error[OF Inl] show ?thesis by simp
      next
        case vs: (Inr vs)
        show ?thesis
        proof (cases "call now c vs")
          case (Inl e)
          with Cons.prems Inr False vs call_error[OF Inl] show ?thesis by simp
        next
          case kv: (Inr key_value)
          with Cons.prems Inr False vs
          have "mergeKeys_loop now logic ts keys (setattr rt key key_value) = Inl KeyError" by simp
          from Cons.IH[OF this] show ?thesis by simp
        qed
      qed
    qed
  qed
qed

lemma wildcard_mergeKeys_loop:
  "map_of logic ''*'' \<noteq> None \<Longrightarrow>
   mergeKeys_loop now (AList.update ''tableTag'' C_equal logic) ts keys rt \<noteq> Inl KeyError"
  using mergeKeys_loop_KeyError wildcard_lookup by blast

lemma wildcard_mergeKeys:
  "map_of logic ''*'' \<noteq> None \<Longrightarrow> mergeKeys now rt logic ts \<noteq> Inl KeyError"
  by (simp add: mergeKeys_def wildcard_mergeKeys_loop)

lemma wildcards:
  "map_of maxp_logic ''*'' = Some C_max" "map_of hhea_logic ''*'' = Some C_equal"
  "map_of OS_2_logic ''*'' = Some C_first" "map_of post_logic ''*'' = Some C_first"
  by (simp_all add: maxp_logic_def hhea_logic_def OS_2_logic_def post_logic_def)

lemma head_no_wildcard: "map_of head_logic ''*'' = None"
  by (simp add: head_logic_def)

lemma head_lookup:
  "lookup_logic (AList.update ''tableTag'' C_equal head_logic) key = Inl KeyError \<longleftrightarrow>
   key \<notin> insert ''tableTag'' (fst ` set head_logic)"
proof -
  have "map_of (AList.update ''tableTag'' C_equal head_logic) ''*'' = None"
    by (simp add: map_of_tableTag head_no_wildcard)
  then show ?thesis
    by (auto simp: lookup_logic_KeyError map_of_tableTag map_of_eq_None_iff)
qed

lemma allKeys_set: "set (allKeys ts) = (\<Union>t\<in>set ts. fst ` set t)"
  by (auto simp: allKeys_def)

lemma post_loop_error: "post_loop mapping ts = Inl e \<Longrightarrow> e = TypeError"
  by (induction mapping ts rule: post_loop.induct)
     (auto split: if_splits sum.splits val.splits)

text \<open>
  Claim C7, as amended. The \<^verbatim>\<open>logic\<close> dicts of \<^verbatim>\<open>maxp\<close>, \<^verbatim>\<open>hhea\<close>, \<^verbatim>\<open>OS/2\<close> and
  \<^verbatim>\<open>post\<close> have the entry \<^verbatim>\<open>'*'\<close>, so for them the lookup of the generic field merger
  never raises KeyError, for any field name, any source tables and any order of the
  keys. The dict of \<^verbatim>\<open>head\<close> has no entry \<^verbatim>\<open>'*'\<close>: its lookup raises KeyError exactly
  for a field name other than \<^verbatim>\<open>tableTag\<close> and the seventeen names it lists, so the
  \<^verbatim>\<open>head\<close> merger raises KeyError only when a source table has such a field.
\<close>

theorem wildcard_policies:
  "(\<forall>logic \<in> {maxp_logic, hhea_logic, OS_2_logic, post_logic}.
       map_of logic ''*'' \<noteq> None
     \<and> (\<forall>key. lookup_logic (AList.update ''tableTag'' C_equal logic) key \<noteq> Inl KeyError)
     \<and> (\<forall>now m_tables keys return_table.
           mergeKeys_loop now (AList.update ''tableTag'' C_equal logic) m_tables keys return_table
             \<noteq> Inl KeyError))
   \<and> maxp_merge now self m_tables \<noteq> Inl KeyError
   \<and> hhea_merge now self m_tables \<noteq> Inl KeyError
   \<and> OS_2_merge now self m_tables \<noteq> Inl KeyError
   \<and> post_merge now self m_tables \<noteq> Inl KeyError
   \<and> map_of head_logic ''*'' = None
   \<and> (\<forall>key. lookup_logic (AList.update ''tableTag'' C_equal head_logic) key = Inl KeyError
           \<longleftrightarrow> key \<notin> insert ''tableTag'' (fst ` set head_logic))
   \<and> (head_merge now self m_tables = Inl KeyError \<longrightarrow>
         (\<exists>t \<in> set m_tables. \<exists>key \<in> fst ` set t.
            key \<notin> insert ''tableTag'' (fst ` set head_logic)))"
proof -
  have w: "\<forall>logic \<in> {maxp_logic, hhea_logic, OS_2_logic, post_logic}. map_of logic ''*'' \<noteq> None"
    by (simp add: wildcards)
  have a: "\<forall>logic \<in> {maxp_logic, hhea_logic, OS_2_logic, post_logic}.
       map_of logic ''*'' \<noteq> None
     \<and> (\<forall>key. lookup_logic (AList.update ''tableTag'' C_equal logic) key \<noteq> Inl KeyError)
     \<and> (\<forall>now m_tables keys return_table.
           mergeKeys_loop now (AList.update ''tableTag'' C_equal logic) m_tables keys return_table
             \<noteq> Inl KeyError)"
  proof
    fix logic assume "logic \<in> {maxp_logic, hhea_logic, OS_2_logic, post_logic}"
    with w have "map_of logic ''*'' \<noteq> None" by blast
    then show "map_of logic ''*'' \<noteq> None
     \<and> (\<forall>key. lookup_logic (AList.update ''tableTag'' C_equal logic) key \<noteq> Inl KeyError)
     \<and> (\<forall>now m_tables keys return_table.
           mergeKeys_loop now (AList.update ''tableTag'' C_equal logic) m_tables keys return_table
             \<noteq> Inl KeyError)"
      by (simp add: wildcard_lookup wildcard_mergeKeys_loop)
  qed
  have b1: "maxp_merge now self m_tables \<noteq> Inl KeyError"
    using wildcard_mergeKeys[of maxp_logic now self m_tables]
    by (auto simp: maxp_merge_def wildcards split: sum.splits)
  have b2: "hhea_merge now self m_tables \<noteq> Inl KeyError"
    using wildcard_mergeKeys[of hhea_logic now self m_tables]
    by (auto simp: hhea_merge_def wildcards split: sum.splits)
  have b3: "OS_2_merge now self m_tables \<noteq> Inl KeyError"
    using wildcard_mergeKeys[of OS_2_logic now self m_tables]
    by (auto simp: OS_2_merge_def wildcards split: sum.splits)
  have b4: "post_merge now self m_tables \<noteq> Inl KeyError"
    using wildcard_mergeKeys[of post_logic now self m_tables]
    by (auto simp: post_merge_def wildcards split: sum.splits dest: post_loop_error)
  have c: "head_merge now self m_tables = Inl KeyError \<longrightarrow>
         (\<exists>t \<in> set m_tables. \<exists>key \<in> fst ` set t.
            key \<notin> insert ''tableTag'' (fst ` set head_logic))"
  proof
    assume "head_merge now self m_tables = Inl KeyError"
    then have "mergeKeys now self head_logic m_tables = Inl KeyError"
      by (auto simp: head_merge_def split: sum.splits)
    then obtain key where k: "key \<in> set (allKeys m_tables)"
      "lookup_logic (AList.update ''tableTag'' C_equal head_logic) key = Inl KeyError"
      unfolding mergeKeys_def by (blast dest: mergeKeys_loop_KeyError)
    from k(2) have "key \<notin> insert ''tableTag'' (fst ` set head_logic)"
      using head_lookup by blast
    with k(1) show "\<exists>t \<in> set m_tables. \<exists>key \<in> fst ` set t.
            key \<notin> insert ''tableTag'' (fst ` set head_logic)"
      unfolding allKeys_set by blast
  qed
  from a b1 b2 b3 b4 head_no_wildcard head_lookup c show ?thesis
    by (intro conjI allI)
qed

theorem wildcard_policies_witness:
  "map_of maxp_logic ''*'' \<noteq> None
   \<and> lookup_logic (AList.update ''tableTag'' C_equal maxp_logic) ''maxZones'' \<noteq> Inl KeyError
   \<and> maxp_merge 0 (new_table ''maxp'')
        [[(''tableTag'', StrV ''maxp''), (''maxZones'', IntV 2)]] \<noteq> Inl KeyError
   \<and> lookup_logic (AList.update ''tableTag'' C_equal head_logic) ''unitsPerEm'' \<noteq> Inl KeyError
   \<and> lookup_logic (AList.update ''tableTag'' C_equal head_logic) ''reserved'' = Inl KeyError"
proof -
  note t = wildcard_policies [of 0 "new_table ''maxp''" "[[(''tableTag'', StrV ''maxp''), (''maxZones'', IntV 2)]]"]
  from t have m: "map_of maxp_logic ''*'' \<noteq> None
       \<and> (\<forall>key. lookup_logic (AList.update ''tableTag'' C_equal maxp_logic) key \<noteq> Inl KeyError)"
    by blast
  from t have mm: "maxp_merge 0 (new_table ''maxp'')
        [[(''tableTag'', StrV ''maxp''), (''maxZones'', IntV 2)]] \<noteq> Inl KeyError"
    by blast
  from t have h: "\<forall>key. lookup_logic (AList.update ''tableTag'' C_equal head_logic) key = Inl KeyError
           \<longleftrightarrow> key \<notin> insert ''tableTag'' (fst ` set head_logic)"
    by blast
  have "''unitsPerEm'' \<in> insert ''tableTag'' (fst ` set head_logic)"
    by (simp add: head_logic_def)
  with h have u: "lookup_logic (AList.update ''tableTag'' C_equal head_logic) ''unitsPerEm'' \<noteq> Inl KeyError"
    by blast
  have "''reserved'' \<notin> insert ''tableTag'' (fst ` set head_logic)"
    by (simp add: head_logic_def)
  with h have r: "lookup_logic (AList.update ''tableTag'' C_equal head_logic) ''reserved'' = Inl KeyError"
    by blast
  from m mm u r show ?thesis by blast
qed

text \<open>
  Claim C7 as it is written fails at \<^verbatim>\<open>head\<close>: no wildcard entry, and KeyError for a
  source table with a field that the dict does not list.
\<close>

theorem head_no_wildcard_counterexample:
  "map_of head_logic ''*'' = None
   \<and> head_merge 0 (new_table ''head'')
        [[(''tableTag'', StrV ''head''), (''reserved'', IntV 0)]] = Inl KeyError"
  by (simp add: head_merge_def mergeKeys_def allKeys_def new_table_def
      lookup_logic_def head_logic_def getattr_def setattr_def)

subsection \<open>Claim about the \<open>post\<close> merger\<close>

lemma post_loop_Cons:
  "post_loop acc (t # ts) = Inr m \<Longrightarrow>
   (\<exists>d. getattr t ''mapping'' = Inr (DictV d) \<and> post_loop (acc ++ d) ts = Inr m)
   \<or> ((\<forall>d. getattr t ''mapping'' \<noteq> Inr (DictV d)) \<and> post_loop acc ts = Inr m)"
  by (auto simp: hasattr_def getattr_def split: if_splits sum.splits val.splits option.splits)

lemma post_loop_dom:
  "post_loop acc ts = Inr m \<Longrightarrow>
   m k \<noteq> None \<longleftrightarrow>
     acc k \<noteq> None \<or> (\<exists>t\<in>set ts. \<exists>d. getattr t ''mapping'' = Inr (DictV d) \<and> d k \<noteq> None)"
proof (induction ts arbitrary: acc)
  case Nil
  then show ?case by simp
next
  case (Cons t ts)
  from post_loop_Cons[OF Cons.prems] show ?case
  proof
    assume "\<exists>d. getattr t ''mapping'' = Inr (DictV d) \<and> post_loop (acc ++ d) ts = Inr m"
    then obtain d where d: "getattr t ''mapping'' = Inr (DictV d)" "post_loop (acc ++ d) ts = Inr m"
      by blast
    have "(acc ++ d) k \<noteq> None \<longleftrightarrow> acc k \<noteq> None \<or> d k \<noteq> None"
      by (simp add: map_add_def split: option.splits)
    with Cons.IH[OF d(2)] d(1) show ?thesis by auto
  next
    assume a: "(\<forall>d. getattr t ''mapping'' \<noteq> Inr (DictV d)) \<and> post_loop acc ts = Inr m"
    then have "m k \<noteq> None \<longleftrightarrow>
     acc k \<noteq> None \<or> (\<exists>t\<in>set ts. \<exists>d. getattr t ''mapping'' = Inr (DictV d) \<and> d k \<noteq> None)"
      using Cons.IH by blast
    with a show ?thesis by auto
  qed
qed

lemma post_loop_None:
  "post_loop acc ts = Inr m \<Longrightarrow>
   \<forall>t\<in>set ts. \<forall>d. getattr t ''mapping'' = Inr (DictV d) \<longrightarrow> d k = None \<Longrightarrow> m k = acc k"
proof (induction ts arbitrary: acc)
  case Nil
  then show ?case by simp
next
  case (Cons t ts)
  from post_loop_Cons[OF Cons.prems(1)] show ?case
  proof
    assume "\<exists>d. getattr t ''mapping'' = Inr (DictV d) \<and> post_loop (acc ++ d) ts = Inr m"
    then obtain d where d: "getattr t ''mapping'' = Inr (DictV d)" "post_loop (acc ++ d) ts = Inr m"
      by blast
    from Cons.prems(2) d(1) have "d k = None" by simp
    moreover from Cons.IH[OF d(2)] Cons.prems(2) have "m k = (acc ++ d) k" by simp
    ultimately show ?thesis by (simp add: map_add_def)
  next
    assume "(\<forall>d. getattr t ''mapping'' \<noteq> Inr (DictV d)) \<and> post_loop acc ts = Inr m"
    with Cons.IH Cons.prems(2) show ?thesis by simp
  qed
qed

lemma post_loop_latest:
  "post_loop acc ts = Inr m \<Longrightarrow> i < length ts \<Longrightarrow> getattr (ts ! i) ''mapping'' = Inr (DictV d) \<Longrightarrow>
   d k \<noteq> None \<Longrightarrow>
   \<forall>j d'. i < j \<and> j < length ts \<and> getattr (ts ! j) ''mapping'' = Inr (DictV d') \<longrightarrow> d' k = None \<Longrightarrow>
   m k = d k"
proof (induction ts arbitrary: acc i)
  case Nil
  then show ?case by simp
next
  case (Cons t ts)
  show ?case
  proof (cases i)
    case 0
    with Cons.prems(3) have t: "getattr t ''mapping'' = Inr (DictV d)" by simp
    with post_loop_Cons[OF Cons.prems(1)] have r: "post_loop (acc ++ d) ts = Inr m" by auto
    have "\<forall>t'\<in>set ts. \<forall>d'. getattr t' ''mapping'' = Inr (DictV d') \<longrightarrow> d' k = None"
    proof (intro ballI allI impI)
      fix t' d' assume "t' \<in> set ts" "getattr t' ''mapping'' = Inr (DictV d')"
      then obtain j where "j < length ts" "ts ! j = t'" by (auto simp: in_set_conv_nth)
      with Cons.prems(5) 0 \<open>getattr t' ''mapping'' = Inr (DictV d')\<close>
      show "d' k = None" by (metis Suc_less_eq length_Cons nth_Cons_Suc zero_less_Suc)
    qed
    from post_loop_None[OF r this] Cons.prems(4) show ?thesis
      by (auto simp: map_add_def split: option.splits)
  next
    case (Suc i')
    from post_loop_Cons[OF Cons.prems(1)] obtain acc' where r: "post_loop acc' ts = Inr m"
      by blast
    show ?thesis
    proof (rule Cons.IH[OF r])
      show "i' < length ts" using Cons.prems(2) Suc by simp
      show "getattr (ts ! i') ''mapping'' = Inr (DictV d)" using Cons.prems(3) Suc by simp
      show "d k \<noteq> None" by (rule Cons.prems(4))
      show "\<forall>j d'. i' < j \<and> j < length ts \<and> getattr (ts ! j) ''mapping'' = Inr (DictV d') \<longrightarrow> d' k = None"
        using Cons.prems(5) Suc by (metis Suc_less_eq length_Cons nth_Cons_Suc)
    qed
  qed
qed

lemma map_of_setattr: "map_of (setattr t key v) = (map_of t)(key \<mapsto> v)"
  by (simp add: setattr_def AList.update_conv')

lemma post_merge_Inr:
  assumes "post_merge now self ts = Inr (r, out, ts')"
  shows "\<exists>self' mapping. post_loop Map.empty ts = Inr mapping
     \<and> out = setattr (setattr self' ''mapping'' (DictV mapping)) ''extraNames'' (ListV [])
     \<and> r = True \<and> ts' = ts"
  using assms by (auto simp: post_merge_def split: sum.splits)

lemma post_keys: "allKeys [post_A, post_B, post_C] =
   [''tableTag'', ''formatType'', ''isFixedPitch'', ''extraNames'', ''mapping'']"
  by (simp add: allKeys_def post_A_def post_B_def post_C_def)

lemma post_mergeKeys_example:
  "mergeKeys 0 (new_table ''post'') post_logic [post_A, post_B, post_C] =
     Inr [(''tableTag'', StrV ''post''), (''formatType'', IntV 3), (''isFixedPitch'', IntV 0)]"
  unfolding mergeKeys_def post_keys
  by (simp add: lookup_logic_def post_logic_def getattr_def setattr_def
      new_table_def post_A_def post_B_def post_C_def)

lemma post_getattr_example:
  "getattr post_A ''mapping'' = Inr (DictV [''a#0'' \<mapsto> ''a'', ''x'' \<mapsto> ''one''])"
  "getattr post_B ''mapping'' = Inl AttributeError"
  "getattr post_C ''mapping'' = Inr (DictV [''a#2'' \<mapsto> ''a'', ''x'' \<mapsto> ''two''])"
  by (simp_all add: getattr_def post_A_def post_B_def post_C_def)

lemma post_hasattr_example:
  "hasattr post_A ''mapping''" "\<not> hasattr post_B ''mapping''" "hasattr post_C ''mapping''"
  by (simp_all add: hasattr_def post_A_def post_B_def post_C_def)

lemma post_loop_example:
  "\<exists>mapping. post_loop Map.empty [post_A, post_B, post_C] = Inr mapping"
  by (simp add: post_hasattr_example post_getattr_example)

lemma post_merge_example:
  "\<exists>out. post_merge 0 (new_table ''post'') [post_A, post_B, post_C] =
     Inr (True, out, [post_A, post_B, post_C])"
proof -
  from post_loop_example obtain mapping where
    "post_loop Map.empty [post_A, post_B, post_C] = Inr mapping" by blast
  then show ?thesis
    by (simp add: post_merge_def post_mergeKeys_example)
qed

text \<open>
  Claim C10. When the \<^verbatim>\<open>post\<close> merger succeeds, \<^verbatim>\<open>extraNames\<close> of the merged table is
  the empty list whatever the sources hold, and its \<^verbatim>\<open>mapping\<close> is the union of the
  mappings of the source tables that have the attribute: a name is mapped exactly
  when one of them maps it, and to the value in the last of them, in input order, that
  maps it.
\<close>

theorem post_merge_mapping:
  assumes "post_merge now self m_tables = Inr (r, out, ts')"
  shows "getattr out ''extraNames'' = Inr (ListV [])
   \<and> (\<exists>mapping. getattr out ''mapping'' = Inr (DictV mapping)
        \<and> (\<forall>k. mapping k \<noteq> None \<longleftrightarrow>
               (\<exists>t \<in> set m_tables. \<exists>d. getattr t ''mapping'' = Inr (DictV d) \<and> d k \<noteq> None))
        \<and> (\<forall>i d k. i < length m_tables \<and> getattr (m_tables ! i) ''mapping'' = Inr (DictV d)
               \<and> d k \<noteq> None
               \<and> (\<forall>j d'. i < j \<and> j < length m_tables
                      \<and> getattr (m_tables ! j) ''mapping'' = Inr (DictV d') \<longrightarrow> d' k = None)
             \<longrightarrow> mapping k = d k))"
proof -
  from post_merge_Inr[OF assms] obtain self' mapping where
    l: "post_loop Map.empty m_tables = Inr mapping" and
    o: "out = setattr (setattr self' ''mapping'' (DictV mapping)) ''extraNames'' (ListV [])"
    by blast
  have e: "getattr out ''extraNames'' = Inr (ListV [])"
    by (simp add: o getattr_def map_of_setattr)
  have m: "getattr out ''mapping'' = Inr (DictV mapping)"
    by (simp add: o getattr_def map_of_setattr)
  have d: "\<forall>k. mapping k \<noteq> None \<longleftrightarrow>
               (\<exists>t \<in> set m_tables. \<exists>d. getattr t ''mapping'' = Inr (DictV d) \<and> d k \<noteq> None)"
    using post_loop_dom[OF l] by simp
  have u: "\<forall>i d k. i < length m_tables \<and> getattr (m_tables ! i) ''mapping'' = Inr (DictV d)
               \<and> d k \<noteq> None
               \<and> (\<forall>j d'. i < j \<and> j < length m_tables
                      \<and> getattr (m_tables ! j) ''mapping'' = Inr (DictV d') \<longrightarrow> d' k = None)
             \<longrightarrow> mapping k = d k"
    using post_loop_latest[OF l] by blast
  from e m d u show ?thesis by blast
qed

theorem post_merge_mapping_witness:
  "\<exists>out mapping. post_merge 0 (new_table ''post'') [post_A, post_B, post_C] =
       Inr (True, out, [post_A, post_B, post_C])
     \<and> getattr out ''extraNames'' = Inr (ListV [])
     \<and> getattr out ''mapping'' = Inr (DictV mapping)
     \<and> mapping ''a#0'' = Some ''a'' \<and> mapping ''x'' = Some ''two'' \<and> mapping ''y'' = None"
proof -
  let ?ts = "[post_A, post_B, post_C]"
  let ?dA = "[''a#0'' \<mapsto> ''a'', ''x'' \<mapsto> ''one'']"
  let ?dC = "[''a#2'' \<mapsto> ''a'', ''x'' \<mapsto> ''two'']"
  from post_merge_example obtain out where
    o: "post_merge 0 (new_table ''post'') ?ts = Inr (True, out, ?ts)" by blast
  from post_merge_mapping[OF o] obtain mapping where
    e: "getattr out ''extraNames'' = Inr (ListV [])" and
    m: "getattr out ''mapping'' = Inr (DictV mapping)" and
    d: "\<forall>k. mapping k \<noteq> None \<longleftrightarrow>
          (\<exists>t \<in> set ?ts. \<exists>d. getattr t ''mapping'' = Inr (DictV d) \<and> d k \<noteq> None)" and
    u: "\<forall>i d k. i < length ?ts \<and> getattr (?ts ! i) ''mapping'' = Inr (DictV d)
               \<and> d k \<noteq> None
               \<and> (\<forall>j d'. i < j \<and> j < length ?ts
                      \<and> getattr (?ts ! j) ''mapping'' = Inr (DictV d') \<longrightarrow> d' k = None)
             \<longrightarrow> mapping k = d k"
    by blast
  have "\<forall>j d'. 0 < j \<and> j < length ?ts \<and> getattr (?ts ! j) ''mapping'' = Inr (DictV d')
          \<longrightarrow> d' ''a#0'' = None"
    by (auto simp: less_Suc_eq post_getattr_example)
  moreover have "0 < length ?ts \<and> getattr (?ts ! 0) ''mapping'' = Inr (DictV ?dA) \<and> ?dA ''a#0'' \<noteq> None"
    by (simp add: post_getattr_example)
  ultimately have "mapping ''a#0'' = ?dA ''a#0''"
    using u[THEN spec, of 0, THEN spec, of ?dA, THEN spec, of "''a#0''"] by blast
  then have a: "mapping ''a#0'' = Some ''a''" by simp
  have "\<forall>j d'. 2 < j \<and> j < length ?ts \<and> getattr (?ts ! j) ''mapping'' = Inr (DictV d')
          \<longrightarrow> d' ''x'' = None"
    by (auto simp: less_Suc_eq)
  moreover have "2 < length ?ts \<and> getattr (?ts ! 2) ''mapping'' = Inr (DictV ?dC) \<and> ?dC ''x'' \<noteq> None"
    by (simp add: post_getattr_example)
  ultimately have "mapping ''x'' = ?dC ''x''"
    using u[THEN spec, of 2, THEN spec, of ?dC, THEN spec, of "''x''"] by blast
  then have x: "mapping ''x'' = Some ''two''" by simp
  have "\<not> (\<exists>t \<in> set ?ts. \<exists>d. getattr t ''mapping'' = Inr (DictV d) \<and> d ''y'' \<noteq> None)"
    by (auto simp: post_getattr_example)
  with d have y: "mapping ''y'' = None" by blast
  from o e m a x y show ?thesis by blast
qed

subsection \<open>The methods on the store write the new table only\<close>

lemma merge_tag_Inr:
  "merge_tag table_merge new m_tables h = Inr (r, tbl, h') \<longleftrightarrow>
   tbl = length h \<and> table_merge (length h) m_tables (h @ [new]) = Inr (r, h')"
  by (auto simp: merge_tag_def alloc_def split: sum.splits)

lemma mergeKeys_loop_heap_frame:
  "mergeKeys_loop_heap now logic m_tables keys self h = Inr h' \<Longrightarrow>
   length h' = length h \<and> (\<forall>a. a \<noteq> self \<longrightarrow> h' ! a = h ! a)"
proof (induction keys arbitrary: h)
  case Nil
  then show ?case by simp
next
  case (Cons key keys)
  show ?case
  proof (cases "lookup_logic logic key")
    case (Inl e)
    with Cons.prems show ?thesis by simp
  next
    case (Inr c)
    show ?thesis
    proof (cases "c = C_ignore")
      case True
      with Cons.prems Inr Cons.IH show ?thesis by simp
    next
      case False
      show ?thesis
      proof (cases "getattrs (map (nth h) m_tables) key")
        case (Inl e)
        with Cons.prems Inr False show ?thesis by simp
      next
        case vs: (Inr vs)
        show ?thesis
        proof (cases "call now c vs")
          case (Inl e)
          with Cons.prems Inr False vs show ?thesis by simp
        next
          case kv: (Inr key_value)
          with Cons.prems Inr False vs
          have "mergeKeys_loop_heap now logic m_tables keys self
                  (h[self := setattr (h ! self) key key_value]) = Inr h'" by simp
          from Cons.IH[OF this] show ?thesis by simp
        qed
      qed
    qed
  qed
qed

lemma mergeKeys_heap_frame:
  "mergeKeys_heap now self logic m_tables h = Inr h' \<Longrightarrow>
   length h' = length h \<and> (\<forall>a. a \<noteq> self \<longrightarrow> h' ! a = h ! a)"
  unfolding mergeKeys_heap_def by (rule mergeKeys_loop_heap_frame)

lemma scalar_merge_heap_frame:
  "maxp_merge_heap now self m_tables h = Inr (r, h') \<Longrightarrow>
     length h' = length h \<and> (\<forall>a. a \<noteq> self \<longrightarrow> h' ! a = h ! a)"
  "head_merge_heap now self m_tables h = Inr (r, h') \<Longrightarrow>
     length h' = length h \<and> (\<forall>a. a \<noteq> self \<longrightarrow> h' ! a = h ! a)"
  "hhea_merge_heap now self m_tables h = Inr (r, h') \<Longrightarrow>
     length h' = length h \<and> (\<forall>a. a \<noteq> self \<longrightarrow> h' ! a = h ! a)"
  "OS_2_merge_heap now self m_tables h = Inr (r, h') \<Longrightarrow>
     length h' = length h \<and> (\<forall>a. a \<noteq> self \<longrightarrow> h' ! a = h ! a)"
  by (auto simp: maxp_merge_heap_def head_merge_heap_def hhea_merge_heap_def OS_2_merge_heap_def
      split: sum.splits dest: mergeKeys_heap_frame)

lemma post_loop_heap_frame:
  "post_loop_heap self m_tables h = Inr h' \<Longrightarrow>
   length h' = length h \<and> (\<forall>a. a \<noteq> self \<longrightarrow> h' ! a = h ! a)"
proof (induction self m_tables h rule: post_loop_heap.induct)
  case (1 self h)
  then show ?case by simp
next
  case (2 self a m_tables h)
  show ?case
  proof (cases "hasattr (h ! a) ''mapping''")
    case False
    with "2.prems" "2.IH"(2) show ?thesis by simp
  next
    case True
    from "2.prems" True obtain mapping d where
      m: "getattr (h ! self) ''mapping'' = Inr (DictV mapping)" and
      d: "getattr (h ! a) ''mapping'' = Inr (DictV d)" and
      r: "post_loop_heap self m_tables
            (h[self := setattr (h ! self) ''mapping'' (DictV (mapping ++ d))]) = Inr h'"
      by (auto split: sum.splits val.splits)
    from "2.IH"(1)[OF True m refl d refl r] show ?thesis by simp
  qed
qed

lemma post_merge_heap_frame:
  "post_merge_heap now self m_tables h = Inr (r, h') \<Longrightarrow>
   length h' = length h \<and> (\<forall>a. a \<noteq> self \<longrightarrow> h' ! a = h ! a)"
proof -
  assume "post_merge_heap now self m_tables h = Inr (r, h')"
  then obtain h1 h2 where
    k: "mergeKeys_heap now self post_logic m_tables h = Inr h1" and
    l: "post_loop_heap self m_tables (h1[self := setattr (h1 ! self) ''mapping'' (DictV Map.empty)]) = Inr h2" and
    e: "h' = h2[self := setattr (h2 ! self) ''extraNames'' (ListV [])]"
    by (auto simp: post_merge_heap_def split: sum.splits)
  from mergeKeys_heap_frame[OF k] post_loop_heap_frame[OF l] e show ?thesis by simp
qed

lemma mtx_loop_heap_frame:
  "length (mtx_loop_heap self m_tables h) = length h
   \<and> (\<forall>a. a \<noteq> self \<longrightarrow> mtx_loop_heap self m_tables h ! a = h ! a)"
  by (induction self m_tables h rule: mtx_loop_heap.induct) simp_all

lemma mtx_merge_heap_frame:
  "mtx_merge_heap self m_tables h = Inr (r, h') \<Longrightarrow>
   length h' = length h \<and> (\<forall>a. a \<noteq> self \<longrightarrow> h' ! a = h ! a)"
  using mtx_loop_heap_frame[of self m_tables "h[self := (h ! self)\<lparr>metrics := Map.empty\<rparr>]"]
  by (auto simp: mtx_merge_heap_def)

lemma cmap_merge_heap_frame:
  "cmap_merge_heap self m_tables h = Inr (r, h') \<Longrightarrow>
   length h' = length h \<and> (\<forall>a. a \<noteq> self \<longrightarrow> h' ! a = h ! a)"
  by (auto simp: cmap_merge_heap_def Let_def split: if_splits)

lemma GDEF_merge_heap_frame:
  "GDEF_merge_heap self m_tables h = Inr (r, h') \<Longrightarrow>
   length h' = length h \<and> (\<forall>a. a \<noteq> self \<longrightarrow> h' ! a = h ! a)"
  by (auto simp: GDEF_merge_heap_def Let_def)

subsection \<open>The methods on the store agree with the models by value\<close>

text \<open>
  When \<^verbatim>\<open>self\<close> is none of the source tables, a method on the store leaves at the
  address of \<^verbatim>\<open>self\<close> the table that the model by value returns for the objects read
  from the store.
\<close>

lemma map_nth_update_other:
  "self \<notin> set m_tables \<Longrightarrow> map (nth (h[self := x])) m_tables = map (nth h) m_tables"
  by (induction m_tables) auto

lemma mergeKeys_loop_heap_agrees:
  "self \<notin> set m_tables \<Longrightarrow> self < length h \<Longrightarrow>
   mergeKeys_loop_heap now logic m_tables keys self h =
     (case mergeKeys_loop now logic (map (nth h) m_tables) keys (h ! self) of
        Inl e \<Rightarrow> Inl e
      | Inr return_table \<Rightarrow> Inr (h[self := return_table]))"
proof (induction keys arbitrary: h)
  case Nil
  show ?case by simp
next
  case (Cons key keys)
  show ?case
  proof (cases "lookup_logic logic key")
    case (Inl e)
    then show ?thesis by simp
  next
    case (Inr c)
    show ?thesis
    proof (cases "c = C_ignore")
      case True
      with Inr Cons.IH[OF Cons.prems] show ?thesis by simp
    next
      case False
      show ?thesis
      proof (cases "getattrs (map (nth h) m_tables) key")
        case (Inl e)
        with Inr False show ?thesis by simp
      next
        case vs: (Inr vs)
        show ?thesis
        proof (cases "call now c vs")
          case (Inl e)
          with Inr False vs show ?thesis by simp
        next
          case kv: (Inr key_value)
          let ?h = "h[self := setattr (h ! self) key key_value]"
          have "self < length ?h" using Cons.prems(2) by simp
          from Cons.IH[OF Cons.prems(1) this] Inr False vs kv Cons.prems show ?thesis
            by (simp add: map_nth_update_other split: sum.splits)
        qed
      qed
    qed
  qed
qed

lemma mtx_loop_heap_agrees:
  "self \<notin> set m_tables \<Longrightarrow> self < length h \<Longrightarrow>
   mtx_loop_heap self m_tables h =
     h[self := (h ! self)\<lparr>metrics :=
         fold (\<lambda>t self_metrics. self_metrics ++ metrics t) (map (nth h) m_tables) (metrics (h ! self))\<rparr>]"
proof (induction m_tables arbitrary: h)
  case Nil
  show ?case by simp
next
  case (Cons a m_tables)
  let ?h = "h[self := (h ! self)\<lparr>metrics := metrics (h ! self) ++ metrics (h ! a)\<rparr>]"
  from Cons.prems have s: "self \<notin> set m_tables" "a \<noteq> self" "self < length ?h" by auto
  from Cons.IH[OF s(1) s(3)] Cons.prems s(2) show ?case
    by (simp add: map_nth_update_other)
qed

lemma mtx_merge_heap_agrees:
  "self \<notin> set m_tables \<Longrightarrow> self < length h \<Longrightarrow>
   mtx_merge_heap self m_tables h =
     Inr (True, h[self := fst (snd (mtx_merge (h ! self) (map (nth h) m_tables)))])"
proof -
  assume a: "self \<notin> set m_tables" "self < length h"
  let ?h = "h[self := (h ! self)\<lparr>metrics := Map.empty\<rparr>]"
  have "self < length ?h" using a(2) by simp
  from mtx_loop_heap_agrees[OF a(1) this] a show ?thesis
    by (simp add: mtx_merge_heap_def mtx_merge_def map_nth_update_other)
qed

lemma cmap_merge_heap_agrees:
  "self < length h \<Longrightarrow>
   cmap_merge_heap self m_tables h =
     (case cmap_merge (h ! self) (map (nth h) m_tables) of
        Inl e \<Rightarrow> Inl e
      | Inr (r, out, ts) \<Rightarrow> Inr (r, h[self := out]))"
  by (simp add: cmap_merge_heap_def cmap_merge_def Let_def)

lemma GDEF_merge_heap_agrees:
  "self \<notin> set m_tables \<Longrightarrow> self < length h \<Longrightarrow>
   GDEF_merge_heap self m_tables h =
     Inr (True, h[self := fst (snd (GDEF_merge (h ! self) (map (nth h) m_tables)))])"
  by (simp add: GDEF_merge_heap_def GDEF_merge_def Let_def map_nth_update_other
      split: prod.splits)

lemma mergeKeys_heap_agrees:
  "self \<notin> set m_tables \<Longrightarrow> self < length h \<Longrightarrow>
   mergeKeys_heap now self logic m_tables h =
     (case mergeKeys now (h ! self) logic (map (nth h) m_tables) of
        Inl e \<Rightarrow> Inl e
      | Inr return_table \<Rightarrow> Inr (h[self := return_table]))"
  by (simp add: mergeKeys_heap_def mergeKeys_def mergeKeys_loop_heap_agrees)

lemma post_loop_heap_agrees:
  "self \<notin> set m_tables \<Longrightarrow> self < length h \<Longrightarrow>
   getattr (h ! self) ''mapping'' = Inr (DictV mapping) \<Longrightarrow>
   post_loop_heap self m_tables h =
     (case post_loop mapping (map (nth h) m_tables) of
        Inl e \<Rightarrow> Inl e
      | Inr mapping' \<Rightarrow> Inr (h[self := setattr (h ! self) ''mapping'' (DictV mapping')]))"
proof (induction m_tables arbitrary: h mapping)
  case Nil
  then have "setattr (h ! self) ''mapping'' (DictV mapping) = h ! self"
    by (auto simp: setattr_def getattr_def split: option.splits intro!: AList.update_triv)
  then show ?case by simp
next
  case (Cons a m_tables)
  from Cons.prems have s: "self \<notin> set m_tables" "a \<noteq> self" by auto
  show ?case
  proof (cases "hasattr (h ! a) ''mapping''")
    case False
    with Cons.IH[OF s(1) Cons.prems(2,3)] show ?thesis by simp
  next
    case True
    show ?thesis
    proof (cases "\<exists>d. getattr (h ! a) ''mapping'' = Inr (DictV d)")
      case False
      then have "post_loop_heap self (a # m_tables) h = Inl TypeError"
        using True Cons.prems(3) by (auto split: sum.splits val.splits)
      moreover from False have "post_loop mapping (map (nth h) (a # m_tables)) = Inl TypeError"
        using True by (auto split: sum.splits val.splits)
      ultimately show ?thesis by simp
    next
      case d: True
      then obtain d where d: "getattr (h ! a) ''mapping'' = Inr (DictV d)" by blast
      let ?h = "h[self := setattr (h ! self) ''mapping'' (DictV (mapping ++ d))]"
      have l: "self < length ?h" using Cons.prems(2) by simp
      have g: "getattr (?h ! self) ''mapping'' = Inr (DictV (mapping ++ d))"
        using Cons.prems(2) by (simp add: getattr_def setattr_def AList.update_conv')
      have u: "setattr (setattr (h ! self) ''mapping'' (DictV (mapping ++ d))) ''mapping'' v
          = setattr (h ! self) ''mapping'' v" for v
        by (simp add: setattr_def)
      from Cons.IH[OF s(1) l g] True d Cons.prems s(2) show ?thesis
        by (simp add: map_nth_update_other u split: sum.splits)
    qed
  qed
qed

lemma scalar_merge_heap_agrees:
  assumes "self \<notin> set m_tables" "self < length h"
  shows "maxp_merge_heap now self m_tables h =
     (case maxp_merge now (h ! self) (map (nth h) m_tables) of
        Inl e \<Rightarrow> Inl e | Inr (r, out, ts) \<Rightarrow> Inr (r, h[self := out]))"
    and "head_merge_heap now self m_tables h =
     (case head_merge now (h ! self) (map (nth h) m_tables) of
        Inl e \<Rightarrow> Inl e | Inr (r, out, ts) \<Rightarrow> Inr (r, h[self := out]))"
    and "hhea_merge_heap now self m_tables h =
     (case hhea_merge now (h ! self) (map (nth h) m_tables) of
        Inl e \<Rightarrow> Inl e | Inr (r, out, ts) \<Rightarrow> Inr (r, h[self := out]))"
    and "OS_2_merge_heap now self m_tables h =
     (case OS_2_merge now (h ! self) (map (nth h) m_tables) of
        Inl e \<Rightarrow> Inl e | Inr (r, out, ts) \<Rightarrow> Inr (r, h[self := out]))"
  using assms
  by (simp_all add: maxp_merge_heap_def maxp_merge_def head_merge_heap_def head_merge_def
      hhea_merge_heap_def hhea_merge_def OS_2_merge_heap_def OS_2_merge_def
      mergeKeys_heap_agrees split: sum.splits)

lemma post_merge_heap_agrees:
  assumes "self \<notin> set m_tables" "self < length h"
  shows "post_merge_heap now self m_tables h =
     (case post_merge now (h ! self) (map (nth h) m_tables) of
        Inl e \<Rightarrow> Inl e | Inr (r, out, ts) \<Rightarrow> Inr (r, h[self := out]))"
proof (cases "mergeKeys now (h ! self) post_logic (map (nth h) m_tables)")
  case (Inl e)
  with assms show ?thesis
    by (simp add: post_merge_heap_def post_merge_def mergeKeys_heap_agrees)
next
  case (Inr rt)
  let ?h1 = "h[self := rt]"
  let ?h2 = "h[self := setattr rt ''mapping'' (DictV Map.empty)]"
  have k: "mergeKeys_heap now self post_logic m_tables h = Inr ?h1"
    using assms Inr by (simp add: mergeKeys_heap_agrees)
  have l: "self < length ?h2" using assms(2) by simp
  have g: "getattr (?h2 ! self) ''mapping'' = Inr (DictV Map.empty)"
    using assms(2) by (simp add: getattr_def setattr_def AList.update_conv')
  have u: "setattr (setattr rt ''mapping'' (DictV Map.empty)) ''mapping'' v
          = setattr rt ''mapping'' v" for v
    by (simp add: setattr_def)
  from post_loop_heap_agrees[OF assms(1) l g]
  have p: "post_loop_heap self m_tables ?h2 =
     (case post_loop Map.empty (map (nth h) m_tables) of
        Inl e \<Rightarrow> Inl e
      | Inr mapping' \<Rightarrow> Inr (h[self := setattr rt ''mapping'' (DictV mapping')]))"
    using assms(2) by (simp add: map_nth_update_other[OF assms(1)] u split: sum.splits)
  show ?thesis
    using assms(2) Inr
    by (simp add: post_merge_heap_def post_merge_def k p split: sum.splits)
qed

subsection \<open>The glyph-outline merger on the store\<close>

lemma values_loop_Cons:
  "values_loop rh ic ex seen (entry # rest) =
     values_loop rh ic ex (seen @ [(fst entry, stripped_expanded rh ic ex seen entry rest)]) rest"
  by (cases entry) (simp add: stripped_expanded_def Let_def)

lemma values_loop_shape:
  "\<exists>out. values_loop rh ic ex seen rest = seen @ out \<and> map fst out = map fst rest"
proof (induction rest arbitrary: seen)
  case Nil
  show ?case by simp
next
  case (Cons entry rest)
  from Cons.IH[of "seen @ [(fst entry, stripped_expanded rh ic ex seen entry rest)]"]
  show ?case unfolding values_loop_Cons by auto
qed

lemma values_loop_length:
  "length (values_loop rh ic ex seen rest) = length seen + length rest"
proof -
  from values_loop_shape[of rh ic ex seen rest] obtain out where
    "values_loop rh ic ex seen rest = seen @ out" "map fst out = map fst rest" by blast
  then show ?thesis using map_eq_imp_length_eq by fastforce
qed

lemma values_loop_take:
  "take (length seen) (values_loop rh ic ex seen rest) = seen"
  using values_loop_shape[of rh ic ex seen rest] by auto

lemma values_loop_nth:
  "j < length rest \<Longrightarrow>
   values_loop rh ic ex seen rest ! (length seen + j) =
     (fst (rest ! j),
      stripped_expanded rh ic ex (take (length seen + j) (values_loop rh ic ex seen rest))
        (rest ! j) (drop (Suc j) rest))"
proof (induction rest arbitrary: seen j)
  case Nil
  then show ?case by simp
next
  case (Cons entry rest)
  let ?p = "(fst entry, stripped_expanded rh ic ex seen entry rest)"
  let ?R = "values_loop rh ic ex (seen @ [?p]) rest"
  have R: "values_loop rh ic ex seen (entry # rest) = ?R" by (rule values_loop_Cons)
  from values_loop_shape[of rh ic ex "seen @ [?p]" rest] obtain out where
    out: "?R = (seen @ [?p]) @ out" by blast
  show ?case
  proof (cases j)
    case 0
    have "?R ! length seen = ?p" unfolding out by (simp add: nth_append)
    moreover have "take (length seen) ?R = seen" unfolding out by simp
    ultimately show ?thesis unfolding R using 0 by simp
  next
    case (Suc j')
    with Cons.prems have j': "j' < length rest" by simp
    from Cons.IH[OF j', of "seen @ [?p]"] show ?thesis
      unfolding R using Suc by simp
  qed
qed

lemma values_loop_fixed:
  "\<forall>j < length rest.
      stripped_expanded rh ic ex (seen @ take j rest) (rest ! j) (drop (Suc j) rest) = snd (rest ! j) \<Longrightarrow>
   values_loop rh ic ex seen rest = seen @ rest"
proof (induction rest arbitrary: seen)
  case Nil
  show ?case by simp
next
  case (Cons entry rest)
  from Cons.prems[rule_format, of 0]
  have e: "stripped_expanded rh ic ex seen entry rest = snd entry" by simp
  have "\<forall>j < length rest.
      stripped_expanded rh ic ex ((seen @ [entry]) @ take j rest) (rest ! j) (drop (Suc j) rest)
        = snd (rest ! j)"
  proof (intro allI impI)
    fix j assume "j < length rest"
    with Cons.prems[rule_format, of "Suc j"]
    show "stripped_expanded rh ic ex ((seen @ [entry]) @ take j rest) (rest ! j) (drop (Suc j) rest)
        = snd (rest ! j)" by simp
  qed
  from Cons.IH[OF this] show ?case
    unfolding values_loop_Cons e by simp
qed

lemma values_loop_names:
  "map fst (values_loop rh ic ex [] gs) = map fst gs"
  using values_loop_shape[of rh ic ex "[]" gs] by auto

lemma values_loop_entry:
  "j < length gs \<Longrightarrow>
   snd (values_loop rh ic ex [] gs ! j) =
     stripped_expanded rh ic ex (take j (values_loop rh ic ex [] gs)) (gs ! j) (drop (Suc j) gs)"
  using values_loop_nth[of j gs rh ic ex "[]"] by simp

lemma values_loop_unchanged_iff:
  "values_loop rh ic ex [] gs = gs \<longleftrightarrow>
   (\<forall>j < length gs. stripped_expanded rh ic ex (take j gs) (gs ! j) (drop (Suc j) gs) = snd (gs ! j))"
proof
  assume u: "values_loop rh ic ex [] gs = gs"
  show "\<forall>j < length gs. stripped_expanded rh ic ex (take j gs) (gs ! j) (drop (Suc j) gs) = snd (gs ! j)"
  proof (intro allI impI)
    fix j assume "j < length gs"
    from values_loop_entry[OF this, of rh ic ex]
    show "stripped_expanded rh ic ex (take j gs) (gs ! j) (drop (Suc j) gs) = snd (gs ! j)"
      unfolding u by simp
  qed
next
  assume "\<forall>j < length gs. stripped_expanded rh ic ex (take j gs) (gs ! j) (drop (Suc j) gs) = snd (gs ! j)"
  then have "\<forall>j < length gs.
      stripped_expanded rh ic ex ([] @ take j gs) (gs ! j) (drop (Suc j) gs) = snd (gs ! j)"
    by simp
  from values_loop_fixed[OF this] show "values_loop rh ic ex [] gs = gs" by simp
qed

lemma glyf_table_update_eq:
  "t\<lparr>glyphs := gs\<rparr> = t \<longleftrightarrow> gs = glyphs (t :: 'g glyf_table)"
  by (cases t) auto

lemma glyf_loop_heap_frame:
  "distinct m_tables \<Longrightarrow> self \<notin> set m_tables \<Longrightarrow> \<forall>a\<in>set m_tables. a < length h \<Longrightarrow>
   length (glyf_loop_heap rh ic ex self m_tables h) = length h
   \<and> (\<forall>a. a \<noteq> self \<and> a \<notin> set m_tables \<longrightarrow> glyf_loop_heap rh ic ex self m_tables h ! a = h ! a)
   \<and> (\<forall>a\<in>set m_tables. glyf_loop_heap rh ic ex self m_tables h ! a =
          (h ! a)\<lparr>glyphs := values_loop rh ic ex [] (glyphs (h ! a))\<rparr>)"
proof (induction m_tables arbitrary: h)
  case Nil
  show ?case by simp
next
  case (Cons a m_tables)
  let ?h' = "h[a := (h ! a)\<lparr>glyphs := values_loop rh ic ex [] (glyphs (h ! a))\<rparr>]"
  let ?h'' = "?h'[self := (?h' ! self)\<lparr>glyphs := dict_update (glyphs (?h' ! self)) (glyphs (?h' ! a))\<rparr>]"
  have step: "glyf_loop_heap rh ic ex self (a # m_tables) h = glyf_loop_heap rh ic ex self m_tables ?h''"
    by (simp add: Let_def)
  from Cons.prems have d: "distinct m_tables" "self \<notin> set m_tables" "a \<notin> set m_tables"
    "a \<noteq> self" "a < length h" "\<forall>b\<in>set m_tables. b < length ?h''"
    by auto
  note IH = Cons.IH[OF d(1) d(2) d(6)]
  have l: "length (glyf_loop_heap rh ic ex self (a # m_tables) h) = length h"
    unfolding step using IH by simp
  have o: "\<forall>b. b \<noteq> self \<and> b \<notin> set (a # m_tables) \<longrightarrow>
        glyf_loop_heap rh ic ex self (a # m_tables) h ! b = h ! b"
    unfolding step using IH by simp
  have s: "\<forall>b\<in>set (a # m_tables). glyf_loop_heap rh ic ex self (a # m_tables) h ! b =
          (h ! b)\<lparr>glyphs := values_loop rh ic ex [] (glyphs (h ! b))\<rparr>"
  proof
    fix b assume b: "b \<in> set (a # m_tables)"
    show "glyf_loop_heap rh ic ex self (a # m_tables) h ! b =
          (h ! b)\<lparr>glyphs := values_loop rh ic ex [] (glyphs (h ! b))\<rparr>"
    proof (cases "b = a")
      case True
      with IH d(3,4) have "glyf_loop_heap rh ic ex self m_tables ?h'' ! b = ?h'' ! b" by blast
      with True d(4,5) show ?thesis unfolding step by simp
    next
      case False
      with b have bm: "b \<in> set m_tables" by simp
      with d(2) have "b \<noteq> self" by blast
      with IH bm False show ?thesis unfolding step by simp
    qed
  qed
  from l o s show ?case by blast
qed

lemma fresh_output_sources_unchangedI:
  assumes "\<And>self m_tables h r h'. table_merge self m_tables h = Inr (r, h') \<Longrightarrow>
     length h' = length h \<and> (\<forall>a. a \<noteq> self \<longrightarrow> h' ! a = h ! a)"
  shows "fresh_output_sources_unchanged table_merge"
  unfolding fresh_output_sources_unchanged_def
proof (intro allI impI)
  fix new m_tables h r tbl h'
  assume a: "(\<forall>a\<in>set m_tables. a < length h)
        \<and> merge_tag table_merge new m_tables h = Inr (r, tbl, h')"
  then have t: "tbl = length h" and m: "table_merge (length h) m_tables (h @ [new]) = Inr (r, h')"
    by (simp_all add: merge_tag_Inr)
  from assms[OF m] have l: "length h' = Suc (length h)"
    and f: "\<forall>a. a \<noteq> length h \<longrightarrow> h' ! a = (h @ [new]) ! a" by simp_all
  have "\<forall>a < length h. h' ! a = h ! a"
    using f by (simp add: nth_append)
  moreover from a t have "tbl \<notin> set m_tables" by auto
  ultimately show "tbl = length h \<and> tbl \<notin> set m_tables \<and> length h' = Suc (length h)
            \<and> (\<forall>a < length h. h' ! a = h ! a)"
    using t l by simp
qed

lemma glyf_merge_tag:
  assumes "distinct m_tables" "\<forall>a\<in>set m_tables. a < length h"
  shows "\<exists>h'. merge_tag (glyf_merge_heap rh ic ex) new m_tables h = Inr (True, length h, h')
     \<and> length h' = Suc (length h)
     \<and> (\<forall>a < length h. a \<notin> set m_tables \<longrightarrow> h' ! a = h ! a)
     \<and> (\<forall>a\<in>set m_tables. h' ! a = (h ! a)\<lparr>glyphs := values_loop rh ic ex [] (glyphs (h ! a))\<rparr>)"
proof -
  let ?h0 = "(h @ [new])[length h := ((h @ [new]) ! length h)\<lparr>glyphs := []\<rparr>]"
  let ?h' = "glyf_loop_heap rh ic ex (length h) m_tables ?h0"
  have m: "merge_tag (glyf_merge_heap rh ic ex) new m_tables h = Inr (True, length h, ?h')"
    by (simp add: merge_tag_Inr glyf_merge_heap_def)
  have s: "length h \<notin> set m_tables" using assms(2) by auto
  have v: "\<forall>a\<in>set m_tables. a < length ?h0" using assms(2) by auto
  note f = glyf_loop_heap_frame[OF assms(1) s v, of rh ic ex]
  have h0: "\<forall>a < length h. ?h0 ! a = h ! a" by (simp add: nth_append)
  have 1: "length ?h' = Suc (length h)" using f by simp
  have 2: "\<forall>a < length h. a \<notin> set m_tables \<longrightarrow> ?h' ! a = h ! a"
    using f h0 by simp
  have 3: "\<forall>a\<in>set m_tables. ?h' ! a = (h ! a)\<lparr>glyphs := values_loop rh ic ex [] (glyphs (h ! a))\<rparr>"
  proof
    fix a assume a: "a \<in> set m_tables"
    with assms(2) have "a < length h" by blast
    with h0 have "?h0 ! a = h ! a" by blast
    with f a show "?h' ! a = (h ! a)\<lparr>glyphs := values_loop rh ic ex [] (glyphs (h ! a))\<rparr>"
      by simp
  qed
  from m 1 2 3 show ?thesis by blast
qed

lemma mtx_merge_tag_example:
  "\<exists>h'. merge_tag mtx_merge_heap \<lparr>metrics = Map.empty\<rparr> [0] [hmtx_A] = Inr (True, 1, h')"
  by (simp add: merge_tag_def alloc_def mtx_merge_heap_def)

subsection \<open>Claim about the source tables\<close>

text \<open>
  Claim C8, as amended. Apart from the rename of the unifier: in the step of
  \<^verbatim>\<open>Merger.merge\<close> for a tag the output table is a freshly created object, at an
  address that no table of the store had before, so it is none of the source tables.
  For the mergers of \<^verbatim>\<open>maxp\<close>, \<^verbatim>\<open>head\<close>, \<^verbatim>\<open>hhea\<close>, \<^verbatim>\<open>OS/2\<close>, \<^verbatim>\<open>post\<close>, \<^verbatim>\<open>hmtx\<close> and
  \<^verbatim>\<open>vmtx\<close>, \<^verbatim>\<open>loca\<close>, the hinting tables, \<^verbatim>\<open>cmap\<close> and \<^verbatim>\<open>GDEF\<close>, a step that returns
  leaves every table that was in the store, the source tables among them, unchanged.
  The \<^verbatim>\<open>glyf\<close> merger, on source tables that are distinct objects, returns, leaves
  every table other than its source tables unchanged, and changes its source tables in
  place: a source table keeps its glyph names in their order, and each of its glyphs
  is left with its hinting removed by \<^verbatim>\<open>removeHinting\<close> and then, if it is composite,
  expanded by \<^verbatim>\<open>expand\<close> with the table as the loop has left it so far. So a source
  table of the \<^verbatim>\<open>glyf\<close> merger is unchanged exactly when this leaves each of its
  glyphs as it was.
\<close>

theorem merge_frame:
  "fresh_output_sources_unchanged (maxp_merge_heap now)
   \<and> fresh_output_sources_unchanged (head_merge_heap now)
   \<and> fresh_output_sources_unchanged (hhea_merge_heap now)
   \<and> fresh_output_sources_unchanged (OS_2_merge_heap now)
   \<and> fresh_output_sources_unchanged (post_merge_heap now)
   \<and> fresh_output_sources_unchanged mtx_merge_heap
   \<and> fresh_output_sources_unchanged (loca_merge_heap :: nat \<Rightarrow> nat list \<Rightarrow> 't heap \<Rightarrow> _)
   \<and> fresh_output_sources_unchanged (hinting_merge_heap :: nat \<Rightarrow> nat list \<Rightarrow> 'u heap \<Rightarrow> _)
   \<and> fresh_output_sources_unchanged cmap_merge_heap
   \<and> fresh_output_sources_unchanged
        (GDEF_merge_heap :: nat \<Rightarrow> nat list \<Rightarrow> ('lg, 'ap) GDEF_table heap \<Rightarrow> _)
   \<and> (\<forall>new m_tables h.
        distinct m_tables \<and> (\<forall>a\<in>set m_tables. a < length h) \<longrightarrow>
        (\<exists>h'. merge_tag (glyf_merge_heap (rh :: 'g \<Rightarrow> 'g) ic ex) new m_tables h
                = Inr (True, length h, h')
           \<and> length h \<notin> set m_tables \<and> length h' = Suc (length h)
           \<and> (\<forall>a < length h. a \<notin> set m_tables \<longrightarrow> h' ! a = h ! a)
           \<and> (\<forall>a\<in>set m_tables.
                 map fst (glyphs (h' ! a)) = map fst (glyphs (h ! a))
               \<and> (\<forall>j < length (glyphs (h ! a)).
                     snd (glyphs (h' ! a) ! j) =
                       stripped_expanded rh ic ex (take j (glyphs (h' ! a)))
                         (glyphs (h ! a) ! j) (drop (Suc j) (glyphs (h ! a))))
               \<and> (h' ! a = h ! a \<longleftrightarrow>
                    (\<forall>j < length (glyphs (h ! a)).
                       stripped_expanded rh ic ex (take j (glyphs (h ! a)))
                         (glyphs (h ! a) ! j) (drop (Suc j) (glyphs (h ! a)))
                       = snd (glyphs (h ! a) ! j))))))"
proof -
  have g: "\<forall>new m_tables h.
        distinct m_tables \<and> (\<forall>a\<in>set m_tables. a < length h) \<longrightarrow>
        (\<exists>h'. merge_tag (glyf_merge_heap rh ic ex) new m_tables h = Inr (True, length h, h')
           \<and> length h \<notin> set m_tables \<and> length h' = Suc (length h)
           \<and> (\<forall>a < length h. a \<notin> set m_tables \<longrightarrow> h' ! a = h ! a)
           \<and> (\<forall>a\<in>set m_tables.
                 map fst (glyphs (h' ! a)) = map fst (glyphs (h ! a))
               \<and> (\<forall>j < length (glyphs (h ! a)).
                     snd (glyphs (h' ! a) ! j) =
                       stripped_expanded rh ic ex (take j (glyphs (h' ! a)))
                         (glyphs (h ! a) ! j) (drop (Suc j) (glyphs (h ! a))))
               \<and> (h' ! a = h ! a \<longleftrightarrow>
                    (\<forall>j < length (glyphs (h ! a)).
                       stripped_expanded rh ic ex (take j (glyphs (h ! a)))
                         (glyphs (h ! a) ! j) (drop (Suc j) (glyphs (h ! a)))
                       = snd (glyphs (h ! a) ! j)))))"
  proof (intro allI impI)
    fix new :: "'g glyf_table" and m_tables and h :: "'g glyf_table heap"
    assume a: "distinct m_tables \<and> (\<forall>a\<in>set m_tables. a < length h)"
    then have d: "distinct m_tables" and v: "\<forall>a\<in>set m_tables. a < length h" by simp_all
    from glyf_merge_tag[OF d v, of rh ic ex new] obtain h' where
      m: "merge_tag (glyf_merge_heap rh ic ex) new m_tables h = Inr (True, length h, h')" and
      l: "length h' = Suc (length h)" and
      o: "\<forall>a < length h. a \<notin> set m_tables \<longrightarrow> h' ! a = h ! a" and
      s: "\<forall>a\<in>set m_tables. h' ! a = (h ! a)\<lparr>glyphs := values_loop rh ic ex [] (glyphs (h ! a))\<rparr>"
      by blast
    have f: "length h \<notin> set m_tables" using v by auto
    have c: "\<forall>a\<in>set m_tables.
                 map fst (glyphs (h' ! a)) = map fst (glyphs (h ! a))
               \<and> (\<forall>j < length (glyphs (h ! a)).
                     snd (glyphs (h' ! a) ! j) =
                       stripped_expanded rh ic ex (take j (glyphs (h' ! a)))
                         (glyphs (h ! a) ! j) (drop (Suc j) (glyphs (h ! a))))
               \<and> (h' ! a = h ! a \<longleftrightarrow>
                    (\<forall>j < length (glyphs (h ! a)).
                       stripped_expanded rh ic ex (take j (glyphs (h ! a)))
                         (glyphs (h ! a) ! j) (drop (Suc j) (glyphs (h ! a)))
                       = snd (glyphs (h ! a) ! j)))"
    proof
      fix a assume "a \<in> set m_tables"
      with s have e: "h' ! a = (h ! a)\<lparr>glyphs := values_loop rh ic ex [] (glyphs (h ! a))\<rparr>"
        by blast
      then have ge: "glyphs (h' ! a) = values_loop rh ic ex [] (glyphs (h ! a))" by simp
      have 1: "map fst (glyphs (h' ! a)) = map fst (glyphs (h ! a))"
        unfolding ge by (rule values_loop_names)
      have 2: "\<forall>j < length (glyphs (h ! a)).
                     snd (glyphs (h' ! a) ! j) =
                       stripped_expanded rh ic ex (take j (glyphs (h' ! a)))
                         (glyphs (h ! a) ! j) (drop (Suc j) (glyphs (h ! a)))"
        unfolding ge by (simp add: values_loop_entry)
      have 3: "h' ! a = h ! a \<longleftrightarrow>
                    (\<forall>j < length (glyphs (h ! a)).
                       stripped_expanded rh ic ex (take j (glyphs (h ! a)))
                         (glyphs (h ! a) ! j) (drop (Suc j) (glyphs (h ! a)))
                       = snd (glyphs (h ! a) ! j))"
        unfolding e glyf_table_update_eq by (rule values_loop_unchanged_iff)
      from 1 2 3 show "map fst (glyphs (h' ! a)) = map fst (glyphs (h ! a))
               \<and> (\<forall>j < length (glyphs (h ! a)).
                     snd (glyphs (h' ! a) ! j) =
                       stripped_expanded rh ic ex (take j (glyphs (h' ! a)))
                         (glyphs (h ! a) ! j) (drop (Suc j) (glyphs (h ! a))))
               \<and> (h' ! a = h ! a \<longleftrightarrow>
                    (\<forall>j < length (glyphs (h ! a)).
                       stripped_expanded rh ic ex (take j (glyphs (h ! a)))
                         (glyphs (h ! a) ! j) (drop (Suc j) (glyphs (h ! a)))
                       = snd (glyphs (h ! a) ! j)))"
        by (intro conjI)
    qed
    from m f l o c
    show "\<exists>h'. merge_tag (glyf_merge_heap rh ic ex) new m_tables h = Inr (True, length h, h')
           \<and> length h \<notin> set m_tables \<and> length h' = Suc (length h)
           \<and> (\<forall>a < length h. a \<notin> set m_tables \<longrightarrow> h' ! a = h ! a)
           \<and> (\<forall>a\<in>set m_tables.
                 map fst (glyphs (h' ! a)) = map fst (glyphs (h ! a))
               \<and> (\<forall>j < length (glyphs (h ! a)).
                     snd (glyphs (h' ! a) ! j) =
                       stripped_expanded rh ic ex (take j (glyphs (h' ! a)))
                         (glyphs (h ! a) ! j) (drop (Suc j) (glyphs (h ! a))))
               \<and> (h' ! a = h ! a \<longleftrightarrow>
                    (\<forall>j < length (glyphs (h ! a)).
                       stripped_expanded rh ic ex (take j (glyphs (h ! a)))
                         (glyphs (h ! a) ! j) (drop (Suc j) (glyphs (h ! a)))
                       = snd (glyphs (h ! a) ! j))))"
      by (intro exI[of _ h'] conjI)
  qed
  have "fresh_output_sources_unchanged (maxp_merge_heap now)"
    by (rule fresh_output_sources_unchangedI) (rule scalar_merge_heap_frame(1))
  moreover have "fresh_output_sources_unchanged (head_merge_heap now)"
    by (rule fresh_output_sources_unchangedI) (rule scalar_merge_heap_frame(2))
  moreover have "fresh_output_sources_unchanged (hhea_merge_heap now)"
    by (rule fresh_output_sources_unchangedI) (rule scalar_merge_heap_frame(3))
  moreover have "fresh_output_sources_unchanged (OS_2_merge_heap now)"
    by (rule fresh_output_sources_unchangedI) (rule scalar_merge_heap_frame(4))
  moreover have "fresh_output_sources_unchanged (post_merge_heap now)"
    by (rule fresh_output_sources_unchangedI) (rule post_merge_heap_frame)
  moreover have "fresh_output_sources_unchanged mtx_merge_heap"
    by (rule fresh_output_sources_unchangedI) (rule mtx_merge_heap_frame)
  moreover have "fresh_output_sources_unchanged (loca_merge_heap :: nat \<Rightarrow> nat list \<Rightarrow> 't heap \<Rightarrow> _)"
    by (rule fresh_output_sources_unchangedI) (simp add: loca_merge_heap_def)
  moreover have "fresh_output_sources_unchanged (hinting_merge_heap :: nat \<Rightarrow> nat list \<Rightarrow> 'u heap \<Rightarrow> _)"
    by (rule fresh_output_sources_unchangedI) (simp add: hinting_merge_heap_def)
  moreover have "fresh_output_sources_unchanged cmap_merge_heap"
    by (rule fresh_output_sources_unchangedI) (rule cmap_merge_heap_frame)
  moreover have "fresh_output_sources_unchanged
        (GDEF_merge_heap :: nat \<Rightarrow> nat list \<Rightarrow> ('lg, 'ap) GDEF_table heap \<Rightarrow> _)"
    by (rule fresh_output_sources_unchangedI) (rule GDEF_merge_heap_frame)
  ultimately show ?thesis using g by (intro conjI)
qed

text \<open>
  The theorem at a store of two outline tables, the first with a hinted glyph and a
  composite glyph that is not expanded, and at a store of one metrics table.
\<close>

theorem merge_frame_witness:
  "(\<exists>h'. merge_tag (glyf_merge_heap removeHinting isComposite expand) \<lparr>glyphs = []\<rparr> [0, 1]
            [glyf_hinted, glyf_plain] = Inr (True, 2, h')
      \<and> snd (glyphs (h' ! 0) ! 0) = \<lparr>program = [], composite = False, expanded = True\<rparr>
      \<and> snd (glyphs (h' ! 0) ! 1) = \<lparr>program = [], composite = True, expanded = True\<rparr>
      \<and> h' ! 0 \<noteq> glyf_hinted
      \<and> h' ! 1 = glyf_plain)
   \<and> (\<exists>h'. merge_tag mtx_merge_heap \<lparr>metrics = Map.empty\<rparr> [0] [hmtx_A] = Inr (True, 1, h')
      \<and> h' ! 0 = hmtx_A)"
proof -
  let ?h = "[glyf_hinted, glyf_plain]"
  let ?rh = removeHinting and ?ic = isComposite and ?ex = expand
  note t = merge_frame [where rh = ?rh and ic = ?ic and ex = ?ex and now = 0]
  \<comment> \<open>the outline tables\<close>
  from t have "\<forall>new m_tables h.
        distinct m_tables \<and> (\<forall>a\<in>set m_tables. a < length h) \<longrightarrow>
        (\<exists>h'. merge_tag (glyf_merge_heap ?rh ?ic ?ex) new m_tables h = Inr (True, length h, h')
           \<and> length h \<notin> set m_tables \<and> length h' = Suc (length h)
           \<and> (\<forall>a < length h. a \<notin> set m_tables \<longrightarrow> h' ! a = h ! a)
           \<and> (\<forall>a\<in>set m_tables.
                 map fst (glyphs (h' ! a)) = map fst (glyphs (h ! a))
               \<and> (\<forall>j < length (glyphs (h ! a)).
                     snd (glyphs (h' ! a) ! j) =
                       stripped_expanded ?rh ?ic ?ex (take j (glyphs (h' ! a)))
                         (glyphs (h ! a) ! j) (drop (Suc j) (glyphs (h ! a))))
               \<and> (h' ! a = h ! a \<longleftrightarrow>
                    (\<forall>j < length (glyphs (h ! a)).
                       stripped_expanded ?rh ?ic ?ex (take j (glyphs (h ! a)))
                         (glyphs (h ! a) ! j) (drop (Suc j) (glyphs (h ! a)))
                       = snd (glyphs (h ! a) ! j)))))"
    by (elim conjE)
  moreover have "distinct [0::nat, 1] \<and> (\<forall>a\<in>set [0::nat, 1]. a < length ?h)" by simp
  ultimately obtain h' where
    m: "merge_tag (glyf_merge_heap ?rh ?ic ?ex) \<lparr>glyphs = []\<rparr> [0, 1] ?h = Inr (True, length ?h, h')" and
    c: "\<forall>a\<in>set [0::nat, 1].
                 map fst (glyphs (h' ! a)) = map fst (glyphs (?h ! a))
               \<and> (\<forall>j < length (glyphs (?h ! a)).
                     snd (glyphs (h' ! a) ! j) =
                       stripped_expanded ?rh ?ic ?ex (take j (glyphs (h' ! a)))
                         (glyphs (?h ! a) ! j) (drop (Suc j) (glyphs (?h ! a))))
               \<and> (h' ! a = ?h ! a \<longleftrightarrow>
                    (\<forall>j < length (glyphs (?h ! a)).
                       stripped_expanded ?rh ?ic ?ex (take j (glyphs (?h ! a)))
                         (glyphs (?h ! a) ! j) (drop (Suc j) (glyphs (?h ! a)))
                       = snd (glyphs (?h ! a) ! j)))"
    by blast
  from c have c0: "\<forall>j < length (glyphs (?h ! 0)).
                     snd (glyphs (h' ! 0) ! j) =
                       stripped_expanded ?rh ?ic ?ex (take j (glyphs (h' ! 0)))
                         (glyphs (?h ! 0) ! j) (drop (Suc j) (glyphs (?h ! 0)))"
    and i0: "h' ! 0 = ?h ! 0 \<longleftrightarrow>
                    (\<forall>j < length (glyphs (?h ! 0)).
                       stripped_expanded ?rh ?ic ?ex (take j (glyphs (?h ! 0)))
                         (glyphs (?h ! 0) ! j) (drop (Suc j) (glyphs (?h ! 0)))
                       = snd (glyphs (?h ! 0) ! j))"
    and i1: "h' ! 1 = ?h ! 1 \<longleftrightarrow>
                    (\<forall>j < length (glyphs (?h ! 1)).
                       stripped_expanded ?rh ?ic ?ex (take j (glyphs (?h ! 1)))
                         (glyphs (?h ! 1) ! j) (drop (Suc j) (glyphs (?h ! 1)))
                       = snd (glyphs (?h ! 1) ! j))"
    by simp_all
  have g0: "snd (glyphs (h' ! 0) ! 0) = \<lparr>program = [], composite = False, expanded = True\<rparr>"
    using c0[rule_format, of 0]
    by (simp add: glyf_hinted_def stripped_expanded_def removeHinting_def isComposite_def)
  have g1: "snd (glyphs (h' ! 0) ! 1) = \<lparr>program = [], composite = True, expanded = True\<rparr>"
    using c0[rule_format, of 1]
    by (simp add: glyf_hinted_def stripped_expanded_def removeHinting_def isComposite_def
        expand_def)
  have "\<not> (\<forall>j < length (glyphs (?h ! 0)).
                       stripped_expanded ?rh ?ic ?ex (take j (glyphs (?h ! 0)))
                         (glyphs (?h ! 0) ! j) (drop (Suc j) (glyphs (?h ! 0)))
                       = snd (glyphs (?h ! 0) ! j))"
    by (auto simp: glyf_hinted_def stripped_expanded_def removeHinting_def isComposite_def
        intro!: exI[of _ 0])
  with i0 have n0: "h' ! 0 \<noteq> glyf_hinted" by simp
  have "\<forall>j < length (glyphs (?h ! 1)).
                       stripped_expanded ?rh ?ic ?ex (take j (glyphs (?h ! 1)))
                         (glyphs (?h ! 1) ! j) (drop (Suc j) (glyphs (?h ! 1)))
                       = snd (glyphs (?h ! 1) ! j)"
    by (simp add: glyf_plain_def stripped_expanded_def removeHinting_def isComposite_def)
  with i1 have e1: "h' ! 1 = glyf_plain" by simp
  from m g0 g1 n0 e1 have G: "\<exists>h'. merge_tag (glyf_merge_heap ?rh ?ic ?ex) \<lparr>glyphs = []\<rparr> [0, 1]
            [glyf_hinted, glyf_plain] = Inr (True, 2, h')
      \<and> snd (glyphs (h' ! 0) ! 0) = \<lparr>program = [], composite = False, expanded = True\<rparr>
      \<and> snd (glyphs (h' ! 0) ! 1) = \<lparr>program = [], composite = True, expanded = True\<rparr>
      \<and> h' ! 0 \<noteq> glyf_hinted
      \<and> h' ! 1 = glyf_plain"
    by (intro exI[of _ h']) simp
  \<comment> \<open>the metrics table\<close>
  from t have f: "fresh_output_sources_unchanged mtx_merge_heap"
    by (elim conjE)
  from mtx_merge_tag_example obtain k where
    k: "merge_tag mtx_merge_heap \<lparr>metrics = Map.empty\<rparr> [0] [hmtx_A] = Inr (True, 1, k)" by blast
  have "(\<forall>a\<in>set [0::nat]. a < length [hmtx_A])
        \<and> merge_tag mtx_merge_heap \<lparr>metrics = Map.empty\<rparr> [0] [hmtx_A] = Inr (True, 1, k)"
    using k by simp
  with f have "\<forall>a < length [hmtx_A]. k ! a = [hmtx_A] ! a"
    unfolding fresh_output_sources_unchanged_def by blast
  then have "k ! 0 = hmtx_A" by simp
  with k have M: "\<exists>h'. merge_tag mtx_merge_heap \<lparr>metrics = Map.empty\<rparr> [0] [hmtx_A] = Inr (True, 1, h')
      \<and> h' ! 0 = hmtx_A" by blast
  from G M show ?thesis by (rule conjI)
qed

text \<open>
  Claim C8 as it is written fails at the \<^verbatim>\<open>glyf\<close> merger and a source table with a
  hinted glyph and a composite glyph that is not expanded: after the step the source
  table, at address 0, holds the first glyph without its instructions and the second
  expanded.
\<close>

theorem glyf_merge_strips_counterexample:
  "merge_tag (glyf_merge_heap removeHinting isComposite expand) \<lparr>glyphs = []\<rparr> [0] [glyf_hinted] =
     Inr (True, 1,
       [\<lparr>glyphs = [(''a#0'', \<lparr>program = [], composite = False, expanded = True\<rparr>),
                   (''aacute#0'', \<lparr>program = [], composite = True, expanded = True\<rparr>)]\<rparr>,
        \<lparr>glyphs = [(''a#0'', \<lparr>program = [], composite = False, expanded = True\<rparr>),
                   (''aacute#0'', \<lparr>program = [], composite = True, expanded = True\<rparr>)]\<rparr>])
   \<and> \<lparr>glyphs = [(''a#0'', \<lparr>program = [], composite = False, expanded = True\<rparr>),
                 (''aacute#0'', \<lparr>program = [], composite = True, expanded = True\<rparr>)]\<rparr>
       \<noteq> glyf_hinted"
  by (simp add: merge_tag_def alloc_def glyf_merge_heap_def glyf_hinted_def Let_def dict_update_def
      removeHinting_def isComposite_def expand_def)

end
